theory Spec2Isabelle
  imports Main
begin

section \<open>Data model\<close>

text \<open>
  The document is the host's immutable text; the code only reads its length and slices of
  it, so it is a \<open>string\<close> here. Offsets are natural numbers. Every place where the
  source could produce a negative number clamps it (\<open>Math.max(0, \<dots>)\<close>,
  \<open>Math.max(from, \<dots>)\<close>), which is what truncating subtraction on \<open>nat\<close> followed by
  the same \<open>max\<close> computes.
\<close>

datatype CharCategory = Word | Space | Other

text \<open>\<open>SearchResult\<close> is the type of a cursor's \<open>value\<close>: \<open>{from, to}\<close>.\<close>

record SearchResult =
  "from" :: nat
  to :: nat

text \<open>A regular-expression result also carries the match array (\<open>match[0]\<close> is the whole
  match, the capture groups follow).\<close>

record RegExpResult = SearchResult +
  match :: "string list"

text \<open>A selection range has \<open>from\<close>, \<open>to\<close> and the side the cursor is on.\<close>

record SelectionRange = SearchResult +
  head :: nat

record EditorSelection =
  ranges :: "SelectionRange list"
  mainIndex :: nat

record EditorState =
  doc :: string
  selection :: EditorSelection

text \<open>\<open>state.sliceDoc(from, to)\<close>: the part of the document between two offsets, clipped
  to the document.\<close>

definition sliceDoc :: "EditorState \<Rightarrow> nat \<Rightarrow> nat \<Rightarrow> string" where
  "sliceDoc state a b = take (b - a) (drop a (doc state))"

section \<open>Word boundaries (word.ts)\<close>

text \<open>Whether the characters directly outside the given positions are non-word characters.\<close>

definition insideWordBoundaries ::
  "(string \<Rightarrow> CharCategory) \<Rightarrow> EditorState \<Rightarrow> nat \<Rightarrow> nat \<Rightarrow> bool" where
  "insideWordBoundaries check state a b =
     ((a = 0 \<or> check (sliceDoc state (a - 1) a) \<noteq> Word) \<and>
      (b = length (doc state) \<or> check (sliceDoc state b (b + 1)) \<noteq> Word))"

text \<open>Whether the characters directly at the given positions are word characters.\<close>

definition insideWord ::
  "(string \<Rightarrow> CharCategory) \<Rightarrow> EditorState \<Rightarrow> nat \<Rightarrow> nat \<Rightarrow> bool" where
  "insideWord check state a b =
     (check (sliceDoc state a (a + 1)) = Word \<and> check (sliceDoc state (b - 1) b) = Word)"

text \<open>Whether the characters at the end of the given range are word characters inside
  non-word characters.\<close>

definition isWholeWord ::
  "(string \<Rightarrow> CharCategory) \<Rightarrow> EditorState \<Rightarrow> nat \<Rightarrow> nat \<Rightarrow> bool" where
  "isWholeWord check state a b =
     (insideWordBoundaries check state a b \<and> insideWord check state a b)"

text \<open>A classifier for the examples: ASCII letters, digits and the underscore are word
  characters, blanks are space, everything else (and the empty string) is other.\<close>

definition asciiCategorizer :: "string \<Rightarrow> CharCategory" where
  "asciiCategorizer s =
     (case s of
        [] \<Rightarrow> Other
      | c # _ \<Rightarrow>
          (if c \<in> set ''abcdefghijklmnopqrstuvwxyzABCDEFGHIJKLMNOPQRSTUVWXYZ0123456789_''
           then Word
           else if c \<in> set [CHR '' '', CHR 0x09, CHR 0x0A, CHR 0x0D] then Space
           else Other))"

definition stateOf :: "string \<Rightarrow> EditorState" where
  "stateOf d = \<lparr>doc = d, selection = \<lparr>ranges = [], mainIndex = 0\<rparr>\<rparr>"

section \<open>Match cursors\<close>

text \<open>
  The two cursor classes (\<open>SearchCursor\<close> of cursor.ts and \<open>RegExpCursor\<close> of
  regexp.ts) are imported by the code below but are not among the sources. Both are
  single-pass iterators with the fields \<open>value\<close> and \<open>done\<close>; they differ only in how a
  match at one offset is recognised, which is the field \<open>matchAt\<close> of the cursor state.
  \<open>pos\<close> is the first offset not yet tried and \<open>limit\<close> the end of the cursor's range.
\<close>

record 'r Cursor =
  matchAt :: "nat \<Rightarrow> 'r option"
  pos :: nat
  limit :: nat
  "value" :: 'r
  "done" :: bool

text \<open>The scan shared by both cursors: the first offset from \<open>p\<close> up to \<open>lim\<close> at which
  there is a match, with that match.\<close>

function scanFrom :: "(nat \<Rightarrow> 'r option) \<Rightarrow> nat \<Rightarrow> nat \<Rightarrow> (nat \<times> 'r) option" where
  "scanFrom test lim p =
     (if lim < p then None
      else case test p of
             Some r \<Rightarrow> Some (p, r)
           | None \<Rightarrow> scanFrom test lim (p + 1))"
  by pat_completeness auto
termination
  by (relation "measure (\<lambda>(test, lim, p). lim + 1 - p)") auto

declare scanFrom.simps [simp del]

text \<open>
  Modelled from the spec: \<open>nextOverlapping()\<close>, missing with cursor.ts and regexp.ts.
  It advances to the nearest match that starts at least one offset after the start of
  the previous one (for the regular-expression cursor: it restarts the search at
  \<open>match.from + 1\<close>); the first call finds the first match of the range. With
  no further match in the range the cursor is done, and stays so.
\<close>

definition nextOverlapping :: "'r Cursor \<Rightarrow> 'r Cursor" where
  "nextOverlapping c =
     (if done c then c
      else case scanFrom (matchAt c) (limit c) (pos c) of
             None \<Rightarrow> c\<lparr>done := True\<rparr>
           | Some (p, r) \<Rightarrow> c\<lparr>pos := p + 1, value := r\<rparr>)"

text \<open>
  Modelled from the spec: \<open>next()\<close>, missing with cursor.ts. It advances to the nearest
  match that starts at or after the end of the previous one. The initial \<open>value\<close> has
  \<open>to = 0\<close>, so the first call starts at the start of the range.
\<close>

definition "next" :: "('a SearchResult_scheme) Cursor \<Rightarrow> ('a SearchResult_scheme) Cursor" where
  "next c =
     (if done c then c
      else case scanFrom (matchAt c) (limit c) (max (pos c) (to (value c))) of
             None \<Rightarrow> c\<lparr>done := True\<rparr>
           | Some (p, r) \<Rightarrow> c\<lparr>pos := p + 1, value := r\<rparr>)"

text \<open>
  Modelled from the spec: the literal cursor of cursor.ts, constructed with the document,
  the needle, the range \<open>[a, b)\<close> and an optional case-folding function that is applied
  per character to both the needle and the document. A match lies inside the range. An
  empty needle is outside the contract of the cursor (a query with an empty search string
  is invalid and no cursor is made for it); the model finds no match for it.
\<close>

definition literalAt ::
  "string \<Rightarrow> string \<Rightarrow> (char \<Rightarrow> char) option \<Rightarrow> nat \<Rightarrow> nat \<Rightarrow> SearchResult option" where
  "literalAt text query normalizer b p =
     (let norm = (case normalizer of None \<Rightarrow> (\<lambda>x. x) | Some f \<Rightarrow> f);
          n = length query
      in if query \<noteq> [] \<and> p + n \<le> b \<and> map norm (take n (drop p text)) = map norm query
         then Some \<lparr>from = p, to = p + n\<rparr>
         else None)"

definition SearchCursor ::
  "string \<Rightarrow> string \<Rightarrow> nat \<Rightarrow> nat \<Rightarrow> (char \<Rightarrow> char) option \<Rightarrow> SearchResult Cursor" where
  "SearchCursor text query a b normalizer =
     \<lparr>matchAt = literalAt text query normalizer b, pos = a, limit = b,
      value = \<lparr>from = 0, to = 0\<rparr>, done = False\<rparr>"

text \<open>
  The regular-expression engine is external. A compiled pattern is taken as the function
  that attempts a match anchored at one index of an in-memory string and returns the
  match array (\<open>match[0]\<close>, the matched text, then the capture groups) or nothing;
  \<open>compile\<close> below stands for \<open>new RegExp(source, flags)\<close>, with the flag \<open>ignoreCase\<close>.
\<close>

type_synonym RegExp = "string \<Rightarrow> nat \<Rightarrow> string list option"

definition matchLength :: "string list \<Rightarrow> nat" where
  "matchLength m = (case m of [] \<Rightarrow> 0 | whole # _ \<Rightarrow> length whole)"

text \<open>
  Modelled from the spec: the regular-expression cursor of regexp.ts. It runs the engine
  on the buffered text, which ends at the end \<open>b\<close> of the range, and a match at index \<open>p\<close>
  spans \<open>[p, p + match[0].length)\<close>.
\<close>

definition regexpAt :: "RegExp \<Rightarrow> string \<Rightarrow> nat \<Rightarrow> nat \<Rightarrow> RegExpResult option" where
  "regexpAt re text b p =
     (case re (take b text) p of
        None \<Rightarrow> None
      | Some m \<Rightarrow> Some \<lparr>from = p, to = p + matchLength m, match = m\<rparr>)"

definition RegExpCursor ::
  "(string \<Rightarrow> bool \<Rightarrow> RegExp) \<Rightarrow> string \<Rightarrow> string \<Rightarrow> bool \<Rightarrow> nat \<Rightarrow> nat \<Rightarrow> RegExpResult Cursor"
  where
  "RegExpCursor compile text query ignoreCase a b =
     \<lparr>matchAt = regexpAt (compile query ignoreCase) text b, pos = a, limit = b,
      value = \<lparr>from = 0, to = 0, match = []\<rparr>, done = False\<rparr>"

lemma scanFrom_bounds:
  "scanFrom test lim p = Some (q, r) \<Longrightarrow> p \<le> q \<and> q \<le> lim"
proof (induction test lim p rule: scanFrom.induct)
  case (1 test lim p)
  then show ?case
    by (subst (asm) (2) scanFrom.simps) (fastforce split: if_splits option.splits)
qed

lemma nextOverlapping_measure:
  "\<not> done (nextOverlapping c) \<Longrightarrow>
     limit (nextOverlapping c) + 1 - pos (nextOverlapping c) < limit c + 1 - pos c"
  by (auto simp: nextOverlapping_def split: if_splits option.splits dest!: scanFrom_bounds)

lemma next_measure:
  "\<not> done (next c) \<Longrightarrow> limit (next c) + 1 - pos (next c) < limit c + 1 - pos c"
  by (auto simp: next_def split: if_splits option.splits dest!: scanFrom_bounds)

section \<open>Queries (search.ts)\<close>

text \<open>The fields of the abstract class \<open>Query\<close>; the two subclasses add none that the
  match operations read.\<close>

record Query =
  search :: string
  replace :: string
  caseInsensitive :: bool

datatype AnyQuery = StringQuery Query | RegExpQuery Query

datatype error = TypeError

text \<open>\<open>FindPrev.ChunkSize\<close>.\<close>

definition ChunkSize :: nat where
  "ChunkSize = 10000"

text \<open>\<open>x => x.toLowerCase()\<close> on one character; characters are bytes here, so only the
  ASCII letters change.\<close>

definition toLowerCase :: "char \<Rightarrow> char" where
  "toLowerCase x =
     (let n = (of_char x :: nat) in if 65 \<le> n \<and> n \<le> 90 then char_of (n + 32) else x)"

subsection \<open>StringQuery\<close>

definition StringQuery_cursor :: "Query \<Rightarrow> string \<Rightarrow> nat \<Rightarrow> nat \<Rightarrow> SearchResult Cursor" where
  "StringQuery_cursor q text a b =
     SearchCursor text (search q) a b (if caseInsensitive q then Some toLowerCase else None)"

definition StringQuery_valid :: "Query \<Rightarrow> bool" where
  "StringQuery_valid q = (search q \<noteq> [])"

definition StringQuery_nextMatch :: "Query \<Rightarrow> string \<Rightarrow> nat \<Rightarrow> nat \<Rightarrow> SearchResult option" where
  "StringQuery_nextMatch q text curFrom curTo =
     (let cursor = nextOverlapping (StringQuery_cursor q text curTo (length text));
          cursor = (if done cursor then nextOverlapping (StringQuery_cursor q text 0 curFrom)
                    else cursor)
      in if done cursor then None else Some (value cursor))"

text \<open>\<open>while (!cursor.nextOverlapping().done) range = cursor.value\<close>\<close>

function lastOverlapping :: "'r Cursor \<Rightarrow> 'r option \<Rightarrow> 'r option" where
  "lastOverlapping cursor rng =
     (let c = nextOverlapping cursor
      in if done c then rng else lastOverlapping c (Some (value c)))"
  by pat_completeness auto
termination
  by (relation "measure (\<lambda>(c, rng). limit c + 1 - pos c)")
     (auto dest: nextOverlapping_measure)

declare lastOverlapping.simps [simp del]

text \<open>
  The loop \<open>for (let pos = to;;)\<close> of \<open>prevMatchInRange\<close> has no exit condition of its
  own: it is a partial function, and not returning is the value \<open>None\<close>. A returned
  \<open>null\<close> is \<open>Some None\<close>, a returned range \<open>Some (Some range)\<close>.
\<close>

partial_function (option) prevMatchInRange_loop ::
  "Query \<Rightarrow> string \<Rightarrow> nat \<Rightarrow> nat \<Rightarrow> SearchResult option option" where
  "prevMatchInRange_loop q text a p =
     (let start = max a (p - ChunkSize - length (search q));
          rng = lastOverlapping (StringQuery_cursor q text start p) None
      in if rng \<noteq> None then Some rng
         else if start = a then Some None
         else prevMatchInRange_loop q text a (p - ChunkSize))"

declare prevMatchInRange_loop.simps [code]

definition prevMatchInRange :: "Query \<Rightarrow> string \<Rightarrow> nat \<Rightarrow> nat \<Rightarrow> SearchResult option option" where
  "prevMatchInRange q text a b = prevMatchInRange_loop q text a b"

text \<open>\<open>this.prevMatchInRange(doc, 0, curFrom) || this.prevMatchInRange(doc, curTo, doc.length)\<close>:
  the second scan runs when the first returns \<open>null\<close>; a scan that does not return
  makes the whole call not return.\<close>

definition StringQuery_prevMatch ::
  "Query \<Rightarrow> string \<Rightarrow> nat \<Rightarrow> nat \<Rightarrow> SearchResult option option" where
  "StringQuery_prevMatch q text curFrom curTo =
     (case prevMatchInRange q text 0 curFrom of
        None \<Rightarrow> None
      | Some (Some rng) \<Rightarrow> Some (Some rng)
      | Some None \<Rightarrow> prevMatchInRange q text curTo (length text))"

definition StringQuery_getReplacement :: "Query \<Rightarrow> SearchResult \<Rightarrow> string" where
  "StringQuery_getReplacement q result = replace q"

text \<open>The loop of \<open>StringQuery.matchAll\<close>; \<open>found\<close> is the array \<open>ranges\<close> and \<open>None\<close> the
  returned \<open>null\<close>.\<close>

function StringQuery_matchAll_loop ::
  "SearchResult Cursor \<Rightarrow> nat \<Rightarrow> SearchResult list \<Rightarrow> SearchResult list option" where
  "StringQuery_matchAll_loop cursor lim found =
     (let c = next cursor
      in if done c then Some found
         else if length found \<ge> lim then None
         else StringQuery_matchAll_loop c lim (found @ [value c]))"
  by pat_completeness auto
termination
  by (relation "measure (\<lambda>(c, lim, found). limit c + 1 - pos c)")
     (auto dest: next_measure)

declare StringQuery_matchAll_loop.simps [simp del]

definition StringQuery_matchAll :: "Query \<Rightarrow> string \<Rightarrow> nat \<Rightarrow> SearchResult list option" where
  "StringQuery_matchAll q text lim =
     StringQuery_matchAll_loop (StringQuery_cursor q text 0 (length text)) lim []"

subsection \<open>RegExpQuery\<close>

text \<open>\<open>validRegExp\<close> is imported from regexp.ts and is a parameter here.\<close>

definition RegExpQuery_valid :: "(string \<Rightarrow> bool) \<Rightarrow> Query \<Rightarrow> bool" where
  "RegExpQuery_valid validRegExp q = (search q \<noteq> [] \<and> validRegExp (search q))"

definition RegExpQuery_cursor ::
  "(string \<Rightarrow> bool \<Rightarrow> RegExp) \<Rightarrow> Query \<Rightarrow> string \<Rightarrow> nat \<Rightarrow> nat \<Rightarrow> RegExpResult Cursor" where
  "RegExpQuery_cursor compile q text a b =
     RegExpCursor compile text (search q) (caseInsensitive q) a b"

definition RegExpQuery_nextMatch ::
  "(string \<Rightarrow> bool \<Rightarrow> RegExp) \<Rightarrow> Query \<Rightarrow> string \<Rightarrow> nat \<Rightarrow> nat \<Rightarrow> RegExpResult option" where
  "RegExpQuery_nextMatch compile q text curFrom curTo =
     (let cursor = nextOverlapping (RegExpQuery_cursor compile q text curTo (length text));
          cursor = (if done cursor
                    then nextOverlapping (RegExpQuery_cursor compile q text 0 curFrom)
                    else cursor)
      in if done cursor then None else Some (value cursor))"

definition RegExpQuery_prevMatch :: "Query \<Rightarrow> string \<Rightarrow> nat \<Rightarrow> nat \<Rightarrow> RegExpResult option" where
  "RegExpQuery_prevMatch q text curFrom curTo = None"

text \<open>
  \<open>this.replace.replace(/\$([$&\d+])/g, (m, i) => \<dots>)\<close>. The pattern is a dollar sign
  followed by one character of the class \<open>[$&\d+]\<close>: a dollar sign, an ampersand, a digit
  or a plus sign. The global replacement goes through the string from the left; where the
  pattern matches it puts the callback's result for the two characters and goes on
  behind them.
\<close>

definition isDigit :: "char \<Rightarrow> bool" where
  "isDigit c = (c \<in> set ''0123456789'')"

definition inClass :: "char \<Rightarrow> bool" where
  "inClass c = (c = CHR ''$'' \<or> c = CHR ''&'' \<or> isDigit c \<or> c = CHR ''+'')"

fun replaceGlobal :: "(string \<Rightarrow> char \<Rightarrow> string) \<Rightarrow> string \<Rightarrow> string" where
  "replaceGlobal f (c # i # rest) =
     (if c = CHR ''$'' \<and> inClass i then f [c, i] i @ replaceGlobal f rest
      else c # replaceGlobal f (i # rest))"
| "replaceGlobal f s = s"

text \<open>The unary plus of the callback, \<open>+i\<close>, on the one character the class lets through:
  the digit's value, and \<open>NaN\<close> (here \<open>None\<close>) for the plus sign. Every comparison with
  \<open>NaN\<close> is false.\<close>

definition toNumber :: "char \<Rightarrow> nat option" where
  "toNumber i = (if isDigit i then Some ((of_char i :: nat) - 48) else None)"

text \<open>An index the array does not have reads as \<open>undefined\<close>, which the replacement prints
  as the text \<open>undefined\<close>.\<close>

definition index :: "string list \<Rightarrow> nat \<Rightarrow> string" where
  "index m i = (if i < length m then m ! i else ''undefined'')"

definition replacer :: "RegExpResult \<Rightarrow> string \<Rightarrow> char \<Rightarrow> string" where
  "replacer result m i =
     (if i = CHR ''$'' then ''$''
      else if i = CHR ''&'' then index (match result) 0
      else if i \<noteq> CHR ''0'' \<and>
              (case toNumber i of None \<Rightarrow> False | Some n \<Rightarrow> n < length (match result))
           then index (match result) (the (toNumber i))
      else m)"

definition RegExpQuery_getReplacement :: "Query \<Rightarrow> RegExpResult \<Rightarrow> string" where
  "RegExpQuery_getReplacement q result = replaceGlobal (replacer result) (replace q)"

text \<open>The loop of \<open>RegExpQuery.matchAll\<close>, which advances with \<open>nextOverlapping\<close>.\<close>

function RegExpQuery_matchAll_loop ::
  "RegExpResult Cursor \<Rightarrow> nat \<Rightarrow> RegExpResult list \<Rightarrow> RegExpResult list option" where
  "RegExpQuery_matchAll_loop cursor lim found =
     (let c = nextOverlapping cursor
      in if done c then Some found
         else if length found \<ge> lim then None
         else RegExpQuery_matchAll_loop c lim (found @ [value c]))"
  by pat_completeness auto
termination
  by (relation "measure (\<lambda>(c, lim, found). limit c + 1 - pos c)")
     (auto dest: nextOverlapping_measure)

declare RegExpQuery_matchAll_loop.simps [simp del]

definition RegExpQuery_matchAll ::
  "(string \<Rightarrow> bool \<Rightarrow> RegExp) \<Rightarrow> Query \<Rightarrow> string \<Rightarrow> nat \<Rightarrow> RegExpResult list option" where
  "RegExpQuery_matchAll compile q text lim =
     RegExpQuery_matchAll_loop (RegExpQuery_cursor compile q text 0 (length text)) lim []"

section \<open>Commands of the search panel (search.ts)\<close>

text \<open>One change instruction \<open>{from, to, insert}\<close>.\<close>

record ChangeSpec = SearchResult +
  insert :: string

text \<open>
  A command returns a boolean and may dispatch one transaction: the result is the pair of
  the boolean and the dispatched transaction, if any. Reading a property of \<open>null\<close> or
  \<open>undefined\<close> throws, which is \<open>Inl TypeError\<close>.
\<close>

definition dispatchChanges :: "ChangeSpec list \<Rightarrow> error + (bool \<times> ChangeSpec list option)" where
  "dispatchChanges changes =
     (if changes = [] then Inr (False, None) else Inr (True, Some changes))"

text \<open>
  \<open>replaceAll\<close>, the function wrapped by \<open>searchCommand\<close> (which runs it only for a valid
  query). \<open>matchAll(\<dots>, 1e9)!\<close> is not checked for \<open>null\<close>.
\<close>

definition replaceAll ::
  "(string \<Rightarrow> bool \<Rightarrow> RegExp) \<Rightarrow> AnyQuery \<Rightarrow> string \<Rightarrow> error + (bool \<times> ChangeSpec list option)"
  where
  "replaceAll compile query text =
     (case query of
        StringQuery q \<Rightarrow>
          (case StringQuery_matchAll q text 1000000000 of
             None \<Rightarrow> Inl TypeError
           | Some matches \<Rightarrow>
               dispatchChanges
                 (map (\<lambda>m. \<lparr>from = from m, to = to m,
                             insert = StringQuery_getReplacement q m\<rparr>) matches))
      | RegExpQuery q \<Rightarrow>
          (case RegExpQuery_matchAll compile q text 1000000000 of
             None \<Rightarrow> Inl TypeError
           | Some matches \<Rightarrow>
               dispatchChanges
                 (map (\<lambda>m. \<lparr>from = from m, to = to m,
                             insert = RegExpQuery_getReplacement q m\<rparr>) matches)))"

section \<open>Selection matches (selection-match.ts)\<close>

text \<open>
  The operations of the host editor that this file calls (\<open>state.wordAt\<close>,
  \<open>state.charCategorizer\<close>, \<open>EditorSelection.create\<close>, \<open>selection.addRange\<close>) belong to
  other packages; they are the fields of \<open>Host\<close> and nothing is assumed about them.
\<close>

record Host =
  wordAt :: "EditorState \<Rightarrow> nat \<Rightarrow> SelectionRange option"
  charCategorizer :: "EditorState \<Rightarrow> nat \<Rightarrow> string \<Rightarrow> CharCategory"
  create :: "SelectionRange list \<Rightarrow> nat \<Rightarrow> EditorSelection"
  addRange :: "EditorSelection \<Rightarrow> SelectionRange \<Rightarrow> EditorSelection"

text \<open>\<open>EditorSelection.range(from, to)\<close> and \<open>EditorSelection.cursor(pos)\<close>.\<close>

definition selectionRange :: "nat \<Rightarrow> nat \<Rightarrow> SelectionRange" where
  "selectionRange a b = \<lparr>from = a, to = b, head = b\<rparr>"


record HighlightOptions =
  highlightWordAroundCursor :: bool
  minSelectionLength :: nat
  maxMatches :: nat

definition defaultHighlightOptions :: HighlightOptions where
  "defaultHighlightOptions =
     \<lparr>highlightWordAroundCursor = False, minSelectionLength = 1, maxMatches = 100\<rparr>"

datatype DecorationMark = matchDeco | mainMatchDeco

text \<open>\<open>mark.range(from, to)\<close>\<close>

record DecorationRange = SearchResult +
  mark :: DecorationMark

text \<open>\<open>String.prototype.trim\<close> on the white space a byte can be.\<close>

definition isWhiteSpace :: "char \<Rightarrow> bool" where
  "isWhiteSpace c = (c \<in> set [CHR 0x20, CHR 0x09, CHR 0x0A, CHR 0x0B, CHR 0x0C, CHR 0x0D])"

definition trim :: "string \<Rightarrow> string" where
  "trim s = rev (dropWhile isWhiteSpace (rev (dropWhile isWhiteSpace s)))"

text \<open>
  The inner loop of \<open>getDeco\<close> over one cursor. \<open>check\<close> is \<open>None\<close> for the source's
  \<open>null\<close>; the result \<open>None\<close> is the early \<open>return Decoration.none\<close>.
\<close>

function getDeco_cursor ::
  "HighlightOptions \<Rightarrow> EditorState \<Rightarrow> SelectionRange \<Rightarrow> (string \<Rightarrow> CharCategory) option \<Rightarrow>
   SearchResult Cursor \<Rightarrow> DecorationRange list \<Rightarrow> DecorationRange list option" where
  "getDeco_cursor conf state rng check cursor deco =
     (let c = nextOverlapping cursor
      in if done c then Some deco
         else
           let a = from (value c); b = to (value c)
           in if (case check of
                    None \<Rightarrow> True
                  | Some chk \<Rightarrow>
                      (a = 0 \<or> chk (sliceDoc state (a - 1) a) \<noteq> Word) \<and>
                      (b = length (doc state) \<or> chk (sliceDoc state b (b + 1)) \<noteq> Word))
              then
                let deco' =
                  (if check \<noteq> None \<and> a \<le> from rng \<and> b \<ge> to rng
                   then deco @ [\<lparr>from = a, to = b, mark = mainMatchDeco\<rparr>]
                   else if a \<ge> to rng \<or> b \<le> from rng
                   then deco @ [\<lparr>from = a, to = b, mark = matchDeco\<rparr>]
                   else deco)
                in if length deco' > maxMatches conf then None
                   else getDeco_cursor conf state rng check c deco'
              else getDeco_cursor conf state rng check c deco)"
  by pat_completeness auto
termination
  by (relation "measure (\<lambda>(conf, state, rng, check, c, deco). limit c + 1 - pos c)")
     (auto dest: nextOverlapping_measure)

declare getDeco_cursor.simps [simp del]

text \<open>The loop \<open>for (let part of view.visibleRanges)\<close>.\<close>

fun getDeco_parts ::
  "HighlightOptions \<Rightarrow> EditorState \<Rightarrow> SelectionRange \<Rightarrow> (string \<Rightarrow> CharCategory) option \<Rightarrow>
   string \<Rightarrow> SearchResult list \<Rightarrow> DecorationRange list \<Rightarrow> DecorationRange list option" where
  "getDeco_parts conf state rng check query [] deco = Some deco"
| "getDeco_parts conf state rng check query (part # parts) deco =
     (case getDeco_cursor conf state rng check
             (SearchCursor (doc state) query (from part) (to part) None) deco of
        None \<Rightarrow> None
      | Some deco' \<Rightarrow> getDeco_parts conf state rng check query parts deco')"

text \<open>\<open>Decoration.none\<close> is the empty set; \<open>Decoration.set(deco)\<close> is the list.\<close>

definition decorationSet :: "DecorationRange list option \<Rightarrow> error + DecorationRange list" where
  "decorationSet r = Inr (case r of None \<Rightarrow> [] | Some deco \<Rightarrow> deco)"

text \<open>\<open>getDeco\<close>; the view is given by its configuration, its state and its visible ranges.
  \<open>sel.main\<close> is \<open>sel.ranges[sel.mainIndex]\<close>.\<close>

definition getDeco ::
  "Host \<Rightarrow> HighlightOptions \<Rightarrow> EditorState \<Rightarrow> SearchResult list \<Rightarrow> error + DecorationRange list"
  where
  "getDeco host conf state visibleRanges =
     (let sel = selection state
      in if length (ranges sel) > 1 then Inr []
         else if mainIndex sel \<ge> length (ranges sel) then Inl TypeError
         else
           let rng = ranges sel ! mainIndex sel
           in if from rng = to rng then
                (if \<not> highlightWordAroundCursor conf then Inr []
                 else case wordAt host state (head rng) of
                        None \<Rightarrow> Inr []
                      | Some word \<Rightarrow>
                          decorationSet
                            (getDeco_parts conf state rng
                               (Some (charCategorizer host state (head rng)))
                               (sliceDoc state (from word) (to word)) visibleRanges []))
              else
                let len = to rng - from rng
                in if len < minSelectionLength conf \<or> len > 200 then Inr []
                   else
                     let query = trim (sliceDoc state (from rng) (to rng))
                     in if query = [] then Inr []
                        else decorationSet
                               (getDeco_parts conf state rng None query visibleRanges []))"







section \<open>Notions of the specification\<close>

subsection \<open>Characters around an offset\<close>

text \<open>The character at an offset, as a string of length one; outside the document it is
  the empty string. The character before offset \<open>0\<close> is the empty string as well.\<close>

definition charAt :: "string \<Rightarrow> nat \<Rightarrow> string" where
  "charAt d i = (if i < length d then [d ! i] else [])"

definition charBefore :: "string \<Rightarrow> nat \<Rightarrow> string" where
  "charBefore d i = (if i = 0 then [] else charAt d (i - 1))"


subsection \<open>The sequence of a cursor\<close>

text \<open>The values a cursor yields when it is advanced until it is done, with
  \<open>nextOverlapping\<close> and with \<open>next\<close>.\<close>

function overlappingMatches :: "'r Cursor \<Rightarrow> 'r list" where
  "overlappingMatches cursor =
     (let c = nextOverlapping cursor
      in if done c then [] else value c # overlappingMatches c)"
  by pat_completeness auto
termination
  by (relation "measure (\<lambda>c. limit c + 1 - pos c)") (auto dest: nextOverlapping_measure)

declare overlappingMatches.simps [simp del]

function nextMatches :: "('a SearchResult_scheme) Cursor \<Rightarrow> ('a SearchResult_scheme) list" where
  "nextMatches cursor =
     (let c = next cursor
      in if done c then [] else value c # nextMatches c)"
  by pat_completeness auto
termination
  by (relation "measure (\<lambda>c. limit c + 1 - pos c)") (auto dest: next_measure)

declare nextMatches.simps [simp del]

text \<open>All matches at the offsets from \<open>p\<close> up to \<open>lim\<close>, in document order.\<close>

definition matchesFrom :: "(nat \<Rightarrow> 'r option) \<Rightarrow> nat \<Rightarrow> nat \<Rightarrow> 'r list" where
  "matchesFrom test lim p = List.map_filter test [p ..< Suc lim]"


text \<open>The matches found from the left without overlap: after a match the scan goes on at
  its end (and at least one offset further).\<close>

function disjointFrom ::
  "(nat \<Rightarrow> ('a SearchResult_scheme) option) \<Rightarrow> nat \<Rightarrow> nat \<Rightarrow> ('a SearchResult_scheme) list" where
  "disjointFrom test lim p =
     (if lim < p then []
      else case test p of
             None \<Rightarrow> disjointFrom test lim (p + 1)
           | Some r \<Rightarrow> r # disjointFrom test lim (max (p + 1) (to r)))"
  by pat_completeness auto
termination
  by (relation "measure (\<lambda>(test, lim, p). lim + 1 - p)") auto

declare disjointFrom.simps [simp del]


subsection \<open>Occurrences of a literal query\<close>

text \<open>
  The document has the search string at offset \<open>p\<close>, up to case when the query is
  case-insensitive; \<open>occurrence\<close> is the match there. \<open>occurrencesIn\<close> lists the matches that
  lie inside \<open>[s, e)\<close> in document order, overlapping ones included, and \<open>lastMatchIn\<close> is
  the last of them.
\<close>

definition foldCase :: "Query \<Rightarrow> string \<Rightarrow> string" where
  "foldCase q s = (if caseInsensitive q then map toLowerCase s else s)"

definition occursAt :: "Query \<Rightarrow> string \<Rightarrow> nat \<Rightarrow> bool" where
  "occursAt q text p =
     (search q \<noteq> [] \<and> p + length (search q) \<le> length text \<and>
      foldCase q (take (length (search q)) (drop p text)) = foldCase q (search q))"

definition occurrence :: "Query \<Rightarrow> nat \<Rightarrow> SearchResult" where
  "occurrence q p = \<lparr>from = p, to = p + length (search q)\<rparr>"

definition occurrencesIn :: "Query \<Rightarrow> string \<Rightarrow> nat \<Rightarrow> nat \<Rightarrow> SearchResult list" where
  "occurrencesIn q text s e =
     map (occurrence q) (filter (\<lambda>p. occursAt q text p \<and> p + length (search q) \<le> e) [s ..< e])"

definition lastMatchIn :: "Query \<Rightarrow> string \<Rightarrow> nat \<times> nat \<Rightarrow> SearchResult option" where
  "lastMatchIn q text chunk =
     (case chunk of (s, e) \<Rightarrow>
        (if occurrencesIn q text s e = [] then None else Some (last (occurrencesIn q text s e))))"

text \<open>The matches of a literal query inside \<open>[a, b)\<close> that a scan from the left finds when
  it goes on behind each match: the non-overlapping matches in document order.\<close>

definition nonOverlappingIn :: "Query \<Rightarrow> string \<Rightarrow> nat \<Rightarrow> nat \<Rightarrow> SearchResult list" where
  "nonOverlappingIn q text a b =
     disjointFrom
       (\<lambda>p. if occursAt q text p \<and> p + length (search q) \<le> b then Some (occurrence q p)
            else None) b a"


text \<open>
  The backward scan of \<open>[a, b)\<close> as the specification words it: the chunks, nearest to \<open>b\<close>
  first, each \<open>ChunkSize\<close> characters extended backward by the needle's length \<open>n\<close> and
  clamped at \<open>a\<close>, up to the chunk that starts at \<open>a\<close>; the result is the last match of the
  first chunk that has one. \<open>specPrevMatch\<close> scans \<open>[0, curFrom)\<close> and then, if that gave
  nothing, \<open>[curTo, length)\<close>.
\<close>

function chunksBackward :: "nat \<Rightarrow> nat \<Rightarrow> nat \<Rightarrow> (nat \<times> nat) list" where
  "chunksBackward n a e =
     (let s = max a (e - ChunkSize - n)
      in if s = a then [(s, e)] else (s, e) # chunksBackward n a (e - ChunkSize))"
  by pat_completeness auto
termination
  by (relation "measure (\<lambda>(n, a, e). e)") (auto simp: ChunkSize_def)

declare chunksBackward.simps [simp del]

fun firstYield :: "('c \<Rightarrow> 'r option) \<Rightarrow> 'c list \<Rightarrow> 'r option" where
  "firstYield f [] = None"
| "firstYield f (c # cs) = (case f c of Some r \<Rightarrow> Some r | None \<Rightarrow> firstYield f cs)"

definition chunkedPrevMatch :: "Query \<Rightarrow> string \<Rightarrow> nat \<Rightarrow> nat \<Rightarrow> SearchResult option" where
  "chunkedPrevMatch q text a b =
     firstYield (lastMatchIn q text) (chunksBackward (length (search q)) a b)"

definition specPrevMatch :: "Query \<Rightarrow> string \<Rightarrow> nat \<Rightarrow> nat \<Rightarrow> SearchResult option" where
  "specPrevMatch q text curFrom curTo =
     (case chunkedPrevMatch q text 0 curFrom of
        Some m \<Rightarrow> Some m
      | None \<Rightarrow> chunkedPrevMatch q text curTo (length text))"


subsection \<open>Replacement templates\<close>

text \<open>
  The template expansion in the specification's words: \<open>$&\<close> is the whole match, \<open>$1\<close> to
  \<open>$9\<close> a capture group if the match array has that index, \<open>$$\<close> a dollar sign, and every
  other character stays, a dollar sign before anything else included.
\<close>

fun expandTemplate :: "string list \<Rightarrow> string \<Rightarrow> string" where
  "expandTemplate groups (c # x # rest) =
     (if c \<noteq> CHR ''$'' then c # expandTemplate groups (x # rest)
      else if x = CHR ''&'' then groups ! 0 @ expandTemplate groups rest
      else if x = CHR ''$'' then CHR ''$'' # expandTemplate groups rest
      else if x \<in> set ''123456789'' \<and> (of_char x :: nat) - 48 < length groups
        then groups ! ((of_char x :: nat) - 48) @ expandTemplate groups rest
      else c # expandTemplate groups (x # rest))"
| "expandTemplate groups s = s"


subsection \<open>Examples\<close>

text \<open>An engine for the examples: a pattern without special characters matches its own
  text, and the match array has no capture groups.\<close>

definition literalEngine :: "string \<Rightarrow> bool \<Rightarrow> RegExp" where
  "literalEngine source ignoreCase =
     (\<lambda>text i. if source \<noteq> [] \<and> take (length source) (drop i text) = source
               then Some [source] else None)"

definition exampleQuery :: "string \<Rightarrow> string \<Rightarrow> Query" where
  "exampleQuery s r = \<lparr>search = s, replace = r, caseInsensitive = False\<rparr>"

subsection \<open>Engines\<close>

text \<open>A match of an engine lies inside the string the engine runs on, as every match of
  a regular expression does.\<close>

definition matchesInside :: "RegExp \<Rightarrow> bool" where
  "matchesInside re = (\<forall>t p m. re t p = Some m \<longrightarrow> p + matchLength m \<le> length t)"


subsection \<open>Decorations\<close>

text \<open>The decoration that the body of the loop of \<open>getDeco\<close> adds for one value of the
  cursor, if it adds one.\<close>

definition pushed ::
  "(string \<Rightarrow> CharCategory) option \<Rightarrow> EditorState \<Rightarrow> SelectionRange \<Rightarrow> SearchResult \<Rightarrow>
   DecorationRange option" where
  "pushed check state rng r =
     (if (case check of
            None \<Rightarrow> True
          | Some chk \<Rightarrow> insideWordBoundaries chk state (from r) (to r))
      then (if check \<noteq> None \<and> from r \<le> from rng \<and> to rng \<le> to r
            then Some \<lparr>from = from r, to = to r, mark = mainMatchDeco\<rparr>
            else if to rng \<le> from r \<or> to r \<le> from rng
            then Some \<lparr>from = from r, to = to r, mark = matchDeco\<rparr>
            else None)
      else None)"

text \<open>A host for the examples: no range is merged or sorted, and the word at a position is
  the longest run of word characters of \<open>asciiCategorizer\<close> around it.\<close>

definition exampleWordAt :: "EditorState \<Rightarrow> nat \<Rightarrow> SelectionRange option" where
  "exampleWordAt state p =
     (let isWord = (\<lambda>c. asciiCategorizer [c] = Word);
          start = p - length (takeWhile isWord (rev (take p (doc state))));
          end = p + length (takeWhile isWord (drop p (doc state)))
      in if start = end then None else Some (selectionRange start end))"

definition exampleHost :: Host where
  "exampleHost =
     \<lparr>wordAt = exampleWordAt,
      charCategorizer = (\<lambda>state p. asciiCategorizer),
      create = (\<lambda>rs i. \<lparr>ranges = rs, mainIndex = i\<rparr>),
      addRange = (\<lambda>sel r. \<lparr>ranges = ranges sel @ [r], mainIndex = length (ranges sel)\<rparr>)\<rparr>"

definition exampleState :: "string \<Rightarrow> (nat \<times> nat) list \<Rightarrow> EditorState" where
  "exampleState d rs =
     \<lparr>doc = d, selection = \<lparr>ranges = map (\<lambda>(a, b). selectionRange a b) rs, mainIndex = 0\<rparr>\<rparr>"

section \<open>Properties\<close>

subsection \<open>Slices of one character\<close>

lemma sliceDoc_charAt: "sliceDoc state i (i + 1) = charAt (doc state) i"
  by (simp add: sliceDoc_def charAt_def take_Suc_conv_app_nth)

lemma sliceDoc_charBefore: "sliceDoc state (i - 1) i = charBefore (doc state) i"
proof (cases i)
  case 0
  then show ?thesis by (simp add: sliceDoc_def charBefore_def)
next
  case (Suc j)
  then show ?thesis using sliceDoc_charAt [of state j] by (simp add: charBefore_def)
qed


subsection \<open>Cursors\<close>

lemma scanFrom_None_iff:
  "scanFrom test lim p = None \<longleftrightarrow> (\<forall>q. p \<le> q \<and> q \<le> lim \<longrightarrow> test q = None)"
proof (induction test lim p rule: scanFrom.induct)
  case (1 test lim p)
  show ?case
  proof (cases "lim < p")
    case True
    then show ?thesis by (subst scanFrom.simps) auto
  next
    case False
    show ?thesis
    proof (cases "test p")
      case None
      have "(\<forall>q. p \<le> q \<and> q \<le> lim \<longrightarrow> test q = None) \<longleftrightarrow>
            (\<forall>q. p + 1 \<le> q \<and> q \<le> lim \<longrightarrow> test q = None)"
        using None by (metis Suc_eq_plus1 Suc_leI le_neq_implies_less add_leD1 order_refl le_trans)
      with 1 False None show ?thesis by (subst scanFrom.simps) simp
    next
      case (Some r)
      with False show ?thesis by (subst scanFrom.simps) auto
    qed
  qed
qed

lemma scanFrom_Some_iff:
  "scanFrom test lim p = Some (q, r) \<longleftrightarrow>
     p \<le> q \<and> q \<le> lim \<and> test q = Some r \<and> (\<forall>q'. p \<le> q' \<and> q' < q \<longrightarrow> test q' = None)"
proof (induction test lim p rule: scanFrom.induct)
  case (1 test lim p)
  show ?case
  proof (cases "lim < p")
    case True
    then show ?thesis by (subst scanFrom.simps) auto
  next
    case False
    show ?thesis
    proof (cases "test p")
      case None
      have "(p \<le> q \<and> q \<le> lim \<and> test q = Some r \<and> (\<forall>q'. p \<le> q' \<and> q' < q \<longrightarrow> test q' = None)) \<longleftrightarrow>
            (p + 1 \<le> q \<and> q \<le> lim \<and> test q = Some r \<and> (\<forall>q'. p + 1 \<le> q' \<and> q' < q \<longrightarrow> test q' = None))"
        using None
        by (metis Suc_eq_plus1 Suc_leI le_neq_implies_less add_leD1 option.distinct(1))
      with 1 False None show ?thesis by (subst scanFrom.simps) simp
    next
      case (Some r')
      with False show ?thesis by (subst scanFrom.simps) (auto simp: le_less)
    qed
  qed
qed


lemma nextOverlapping_done [simp]: "done c \<Longrightarrow> nextOverlapping c = c"
  by (simp add: nextOverlapping_def)

lemma next_done [simp]: "done c \<Longrightarrow> next c = c"
  by (simp add: next_def)

lemma nextOverlapping_cases:
  assumes "\<not> done c"
  obtains (finished) "scanFrom (matchAt c) (limit c) (pos c) = None"
      "nextOverlapping c = c\<lparr>done := True\<rparr>"
    | (found) p r where "scanFrom (matchAt c) (limit c) (pos c) = Some (p, r)"
      "nextOverlapping c = c\<lparr>pos := p + 1, value := r\<rparr>"
  using assms by (cases "scanFrom (matchAt c) (limit c) (pos c)") (auto simp: nextOverlapping_def)

lemma next_cases:
  assumes "\<not> done c"
  obtains (finished) "scanFrom (matchAt c) (limit c) (max (pos c) (to (value c))) = None"
      "next c = c\<lparr>done := True\<rparr>"
    | (found) p r where "scanFrom (matchAt c) (limit c) (max (pos c) (to (value c))) = Some (p, r)"
      "next c = c\<lparr>pos := p + 1, value := r\<rparr>"
  using assms by (cases "scanFrom (matchAt c) (limit c) (max (pos c) (to (value c)))") (auto simp: next_def)

lemma matchesFrom_beyond: "lim < p \<Longrightarrow> matchesFrom test lim p = []"
  by (simp add: matchesFrom_def List.map_filter_simps)

lemma matchesFrom_step:
  "p \<le> lim \<Longrightarrow> matchesFrom test lim p =
     (case test p of None \<Rightarrow> matchesFrom test lim (p + 1)
                   | Some r \<Rightarrow> r # matchesFrom test lim (p + 1))"
  by (simp add: matchesFrom_def upt_conv_Cons List.map_filter_simps del: upt_Suc split: option.splits)

lemma matchesFrom_scan_None:
  "scanFrom test lim p = None \<Longrightarrow> matchesFrom test lim p = []"
proof (induction test lim p rule: scanFrom.induct)
  case (1 test lim p)
  show ?case
  proof (cases "lim < p")
    case True
    then show ?thesis by (simp add: matchesFrom_beyond)
  next
    case False
    with 1 show ?thesis
      by (subst (asm) (2) scanFrom.simps) (auto simp: matchesFrom_step split: option.splits)
  qed
qed

lemma matchesFrom_scan_Some:
  "scanFrom test lim p = Some (q, r) \<Longrightarrow> matchesFrom test lim p = r # matchesFrom test lim (q + 1)"
proof (induction test lim p rule: scanFrom.induct)
  case (1 test lim p)
  show ?case
  proof (cases "lim < p")
    case True
    with 1 show ?thesis by (subst (asm) (2) scanFrom.simps) simp
  next
    case False
    with 1 show ?thesis
      by (subst (asm) (2) scanFrom.simps) (auto simp: matchesFrom_step split: option.splits)
  qed
qed

lemma overlappingMatches_eq:
  "\<not> done c \<Longrightarrow> overlappingMatches c = matchesFrom (matchAt c) (limit c) (pos c)"
proof (induction c rule: overlappingMatches.induct)
  case (1 c)
  from \<open>\<not> done c\<close> show ?case
  proof (cases c rule: nextOverlapping_cases)
    case finished
    then show ?thesis
      by (subst overlappingMatches.simps) (simp add: matchesFrom_scan_None)
  next
    case (found p r)
    then have "overlappingMatches (nextOverlapping c) = matchesFrom (matchAt c) (limit c) (p + 1)"
      using 1 by simp
    with found 1 show ?thesis
      by (subst overlappingMatches.simps) (simp add: matchesFrom_scan_Some)
  qed
qed

lemma disjointFrom_scan_None:
  "scanFrom test lim p = None \<Longrightarrow> disjointFrom test lim p = []"
proof (induction test lim p rule: scanFrom.induct)
  case (1 test lim p)
  then show ?case
    by (subst (asm) (2) scanFrom.simps, subst disjointFrom.simps)
       (auto split: option.splits if_splits)
qed

lemma disjointFrom_scan_Some:
  "scanFrom test lim p = Some (q, r) \<Longrightarrow>
     disjointFrom test lim p = r # disjointFrom test lim (max (q + 1) (to r))"
proof (induction test lim p rule: scanFrom.induct)
  case (1 test lim p)
  then show ?case
    by (subst (asm) (2) scanFrom.simps, subst disjointFrom.simps)
       (auto split: option.splits if_splits)
qed

lemma nextMatches_eq:
  "\<not> done c \<Longrightarrow>
     nextMatches c = disjointFrom (matchAt c) (limit c) (max (pos c) (to (value c)))"
proof (induction c rule: nextMatches.induct)
  case (1 c)
  from \<open>\<not> done c\<close> show ?case
  proof (cases c rule: next_cases)
    case finished
    then show ?thesis
      by (subst nextMatches.simps) (simp add: disjointFrom_scan_None)
  next
    case (found p r)
    then have "nextMatches (next c) = disjointFrom (matchAt c) (limit c) (max (p + 1) (to r))"
      using 1 by simp
    with found 1 show ?thesis
      by (subst nextMatches.simps) (simp add: disjointFrom_scan_Some)
  qed
qed

lemma lastOverlapping_eq:
  "lastOverlapping c acc =
     (if overlappingMatches c = [] then acc else Some (last (overlappingMatches c)))"
proof (induction c acc rule: lastOverlapping.induct)
  case (1 c acc)
  show ?case
    by (subst lastOverlapping.simps, subst (1 2) overlappingMatches.simps)
       (use 1 in \<open>simp add: Let_def\<close>)
qed

lemma StringQuery_matchAll_loop_eq:
  "length found \<le> lim \<Longrightarrow> StringQuery_matchAll_loop c lim found =
     (if lim < length found + length (nextMatches c) then None else Some (found @ nextMatches c))"
proof (induction c lim found rule: StringQuery_matchAll_loop.induct)
  case (1 c lim found)
  show ?case
    by (subst StringQuery_matchAll_loop.simps, subst (1 2) nextMatches.simps)
       (use 1 in \<open>auto simp add: Let_def\<close>)
qed

lemma RegExpQuery_matchAll_loop_eq:
  "length found \<le> lim \<Longrightarrow> RegExpQuery_matchAll_loop c lim found =
     (if lim < length found + length (overlappingMatches c) then None
      else Some (found @ overlappingMatches c))"
proof (induction c lim found rule: RegExpQuery_matchAll_loop.induct)
  case (1 c lim found)
  show ?case
    by (subst RegExpQuery_matchAll_loop.simps, subst (1 2) overlappingMatches.simps)
       (use 1 in \<open>auto simp add: Let_def\<close>)
qed

subsection \<open>The literal cursor\<close>

lemma literalAt_iff:
  "literalAt text (search q) (if caseInsensitive q then Some toLowerCase else None) b p =
     (if occursAt q text p \<and> p + length (search q) \<le> b then Some (occurrence q p) else None)"
proof (cases "search q = [] \<or> length text < p + length (search q)")
  case True
  then have "search q = [] \<or>
      length (take (length (search q)) (drop p text)) \<noteq> length (search q)"
    by (cases "search q") auto
  then have "search q = [] \<or> (\<forall>f :: char \<Rightarrow> char.
      map f (take (length (search q)) (drop p text)) \<noteq> map f (search q))"
    by (metis length_map)
  with True show ?thesis
    by (auto simp: literalAt_def occursAt_def Let_def dest: map_eq_imp_length_eq)
next
  case False
  then show ?thesis
    by (auto simp: literalAt_def occursAt_def foldCase_def occurrence_def Let_def)
qed

lemma matchAt_StringQuery_cursor [simp]:
  "matchAt (StringQuery_cursor q text a b) =
     (\<lambda>p. if occursAt q text p \<and> p + length (search q) \<le> b then Some (occurrence q p) else None)"
  unfolding StringQuery_cursor_def SearchCursor_def
  by (rule ext) (simp only: Cursor.simps literalAt_iff)

lemma StringQuery_cursor_fields [simp]:
  "pos (StringQuery_cursor q text a b) = a"
  "limit (StringQuery_cursor q text a b) = b"
  "value (StringQuery_cursor q text a b) = \<lparr>from = 0, to = 0\<rparr>"
  "done (StringQuery_cursor q text a b) = False"
  by (simp_all add: StringQuery_cursor_def SearchCursor_def)

lemma map_filter_if:
  "List.map_filter (\<lambda>p. if P p then Some (f p) else None) xs = map f (filter P xs)"
  by (induction xs) (simp_all add: List.map_filter_simps)

lemma overlapping_StringQuery_cursor:
  "overlappingMatches (StringQuery_cursor q text s e) = occurrencesIn q text s e"
proof -
  have "\<not> (occursAt q text e \<and> e + length (search q) \<le> e)"
    by (auto simp: occursAt_def)
  then show ?thesis
    by (auto simp: overlappingMatches_eq matchesFrom_def map_filter_if occurrencesIn_def)
qed

lemma lastOverlapping_StringQuery_cursor:
  "lastOverlapping (StringQuery_cursor q text s e) None = lastMatchIn q text (s, e)"
  by (simp add: lastOverlapping_eq overlapping_StringQuery_cursor lastMatchIn_def)

lemma prevMatchInRange_loop_eq:
  "prevMatchInRange_loop q text a e =
     Some (firstYield (lastMatchIn q text) (chunksBackward (length (search q)) a e))"
proof (induction "length (search q)" a e rule: chunksBackward.induct)
  case (1 a e)
  show ?case
    by (subst prevMatchInRange_loop.simps, subst chunksBackward.simps)
       (use 1 in \<open>auto simp: Let_def lastOverlapping_StringQuery_cursor split: option.splits\<close>)
qed


subsection \<open>Replacement\<close>

lemma expandTemplate_plain:
  "x \<noteq> CHR ''$'' \<Longrightarrow> expandTemplate groups (x # rest) = x # expandTemplate groups rest"
  by (cases rest) simp_all


lemma replaceGlobal_replacer:
  "match result \<noteq> [] \<Longrightarrow>
     replaceGlobal (replacer result) s = expandTemplate (match result) s"
proof (induction "replacer result" s rule: replaceGlobal.induct)
  case (1 c i rest)
  then show ?case
    by (auto simp: inClass_def isDigit_def replacer_def Spec2Isabelle.index_def toNumber_def expandTemplate_plain)
qed simp_all


subsection \<open>The backward scan\<close>

lemma prevMatchInRange_loop_step:
  "(let start = max a (p - ChunkSize - length (search q));
        rng = lastOverlapping (StringQuery_cursor q text start p) None
    in (rng \<noteq> None \<and> prevMatchInRange_loop q text a p = Some rng) \<or>
       (rng = None \<and> start = a \<and> prevMatchInRange_loop q text a p = Some None) \<or>
       (rng = None \<and> a < p - ChunkSize \<and> p - ChunkSize + ChunkSize = p \<and>
        prevMatchInRange_loop q text a p = prevMatchInRange_loop q text a (p - ChunkSize)))"
  by (subst (1 2 3) prevMatchInRange_loop.simps) (auto simp: Let_def max_def)

lemma prevMatchInRange_loop_returns:
  "\<exists>r. prevMatchInRange_loop q text a p = Some r"
proof (induction p rule: less_induct)
  case (less p)
  consider (found) r where "prevMatchInRange_loop q text a p = Some (Some r)"
    | (clamped) "prevMatchInRange_loop q text a p = Some None"
    | (again) "p - ChunkSize + ChunkSize = p"
        "prevMatchInRange_loop q text a p = prevMatchInRange_loop q text a (p - ChunkSize)"
    using prevMatchInRange_loop_step [of a p q "text"] by (auto simp: Let_def)
  then show ?case
  proof cases
    case again
    then have "p - ChunkSize < p" by (simp add: ChunkSize_def)
    with less again show ?thesis by simp
  qed auto
qed

subsection \<open>The next match\<close>

lemma RegExpQuery_cursor_fields [simp]:
  "matchAt (RegExpQuery_cursor compile q text a b) =
     regexpAt (compile (search q) (caseInsensitive q)) text b"
  "pos (RegExpQuery_cursor compile q text a b) = a"
  "limit (RegExpQuery_cursor compile q text a b) = b"
  "value (RegExpQuery_cursor compile q text a b) = \<lparr>from = 0, to = 0, match = []\<rparr>"
  "done (RegExpQuery_cursor compile q text a b) = False"
  by (simp_all add: RegExpQuery_cursor_def RegExpCursor_def)

lemma nextOverlapping_fresh:
  "\<not> done c \<Longrightarrow>
     (if done (nextOverlapping c) then None else Some (value (nextOverlapping c))) =
     map_option snd (scanFrom (matchAt c) (limit c) (pos c))"
  by (auto simp: nextOverlapping_def split: option.splits)

lemma nextOverlapping_fresh_done:
  "\<not> done c \<Longrightarrow> done (nextOverlapping c) \<longleftrightarrow> scanFrom (matchAt c) (limit c) (pos c) = None"
  by (auto simp: nextOverlapping_def split: option.splits)

lemma StringQuery_nextMatch_scan:
  "StringQuery_nextMatch q text curFrom curTo =
     (case scanFrom (matchAt (StringQuery_cursor q text curTo (length text))) (length text) curTo of
        Some (p, r) \<Rightarrow> Some r
      | None \<Rightarrow>
          map_option snd (scanFrom (matchAt (StringQuery_cursor q text 0 curFrom)) curFrom 0))"
  unfolding StringQuery_nextMatch_def Let_def
  using nextOverlapping_fresh [of "StringQuery_cursor q text curTo (length text)"]
        nextOverlapping_fresh [of "StringQuery_cursor q text 0 curFrom"]
        nextOverlapping_fresh_done [of "StringQuery_cursor q text curTo (length text)"]
  by (auto split: option.splits simp del: matchAt_StringQuery_cursor)

lemma RegExpQuery_nextMatch_scan:
  "RegExpQuery_nextMatch compile q text curFrom curTo =
     (case scanFrom (matchAt (RegExpQuery_cursor compile q text curTo (length text))) (length text) curTo of
        Some (p, r) \<Rightarrow> Some r
      | None \<Rightarrow>
          map_option snd (scanFrom (matchAt (RegExpQuery_cursor compile q text 0 curFrom)) curFrom 0))"
  unfolding RegExpQuery_nextMatch_def Let_def
  using nextOverlapping_fresh [of "RegExpQuery_cursor compile q text curTo (length text)"]
        nextOverlapping_fresh [of "RegExpQuery_cursor compile q text 0 curFrom"]
        nextOverlapping_fresh_done [of "RegExpQuery_cursor compile q text curTo (length text)"]
  by (auto split: option.splits simp del: RegExpQuery_cursor_fields(1))

lemma occursAt_inside: "occursAt q text p \<Longrightarrow> p + length (search q) \<le> length text"
  by (simp add: occursAt_def)

lemma StringQuery_nextMatch_Some:
  assumes "StringQuery_nextMatch q text curFrom curTo = Some m"
  shows "occursAt q text (from m) \<and> m = occurrence q (from m) \<and>
         (curTo \<le> from m \<and> (\<forall>p. curTo \<le> p \<and> p < from m \<longrightarrow> \<not> occursAt q text p) \<or>
          (\<forall>p. curTo \<le> p \<longrightarrow> \<not> occursAt q text p) \<and> to m \<le> curFrom \<and>
          (\<forall>p. p < from m \<longrightarrow> \<not> occursAt q text p))"
proof (cases "scanFrom (matchAt (StringQuery_cursor q text curTo (length text))) (length text) curTo")
  case None
  then have none: "\<forall>p. curTo \<le> p \<longrightarrow> \<not> occursAt q text p"
    unfolding scanFrom_None_iff
    by (auto dest: occursAt_inside split: if_splits)
  from None assms obtain p where
    "scanFrom (matchAt (StringQuery_cursor q text 0 curFrom)) curFrom 0 = Some (p, m)"
    by (auto simp: StringQuery_nextMatch_scan simp del: matchAt_StringQuery_cursor)
  then have "p \<le> curFrom" "matchAt (StringQuery_cursor q text 0 curFrom) p = Some m"
      "\<forall>p'. p' < p \<longrightarrow> matchAt (StringQuery_cursor q text 0 curFrom) p' = None"
    unfolding scanFrom_Some_iff by auto
  then have "occursAt q text p" "p + length (search q) \<le> curFrom" "m = occurrence q p"
      "\<forall>p'. p' < p \<longrightarrow> \<not> occursAt q text p'"
    by (auto split: if_splits)
  with none show ?thesis by (auto simp: occurrence_def)
next
  case (Some pr)
  then obtain p where "scanFrom (matchAt (StringQuery_cursor q text curTo (length text))) (length text) curTo = Some (p, m)"
    using assms by (cases pr) (auto simp: StringQuery_nextMatch_scan simp del: matchAt_StringQuery_cursor)
  then have "curTo \<le> p" "matchAt (StringQuery_cursor q text curTo (length text)) p = Some m"
      "\<forall>p'. curTo \<le> p' \<and> p' < p \<longrightarrow> matchAt (StringQuery_cursor q text curTo (length text)) p' = None"
    unfolding scanFrom_Some_iff by auto
  then have "occursAt q text p" "m = occurrence q p" "curTo \<le> p"
      "\<forall>p'. curTo \<le> p' \<and> p' < p \<longrightarrow> \<not> occursAt q text p'"
    by (auto split: if_splits dest: occursAt_inside)
  then show ?thesis by (auto simp: occurrence_def)
qed

lemma StringQuery_nextMatch_None:
  assumes "StringQuery_nextMatch q text curFrom curTo = None"
  shows "occursAt q text p \<longrightarrow> p < curTo \<and> curFrom < p + length (search q)"
proof
  assume occ: "occursAt q text p"
  from assms have
    fwd: "scanFrom (matchAt (StringQuery_cursor q text curTo (length text))) (length text) curTo = None"
    and wrap: "scanFrom (matchAt (StringQuery_cursor q text 0 curFrom)) curFrom 0 = None"
    by (auto simp: StringQuery_nextMatch_scan simp del: matchAt_StringQuery_cursor split: option.splits)
  have "p < curTo"
  proof (rule ccontr)
    assume "\<not> p < curTo"
    with occ occursAt_inside [OF occ] fwd show False
      unfolding scanFrom_None_iff by (auto split: if_splits dest!: spec [of _ p])
  qed
  moreover have "curFrom < p + length (search q)"
  proof (rule ccontr)
    assume "\<not> curFrom < p + length (search q)"
    with occ wrap show False
      unfolding scanFrom_None_iff by (auto split: if_splits dest!: spec [of _ p])
  qed
  ultimately show "p < curTo \<and> curFrom < p + length (search q)" by simp
qed

lemma regexpAt_Some_iff:
  "regexpAt re text b p = Some m \<longleftrightarrow>
     re (take b text) p = Some (match m) \<and> from m = p \<and> to m = p + matchLength (match m)"
  by (cases m) (auto simp: regexpAt_def split: option.splits)

lemma regexpAt_None_iff: "regexpAt re text b p = None \<longleftrightarrow> re (take b text) p = None"
  by (simp add: regexpAt_def split: option.splits)

lemma RegExpQuery_nextMatch_Some:
  assumes "RegExpQuery_nextMatch compile q text curFrom curTo = Some m"
  defines "re \<equiv> compile (search q) (caseInsensitive q)"
  shows "to m = from m + matchLength (match m) \<and>
         (curTo \<le> from m \<and> from m \<le> length text \<and> re text (from m) = Some (match m) \<and>
          (\<forall>p. curTo \<le> p \<and> p < from m \<longrightarrow> re text p = None) \<or>
          (\<forall>p. curTo \<le> p \<and> p \<le> length text \<longrightarrow> re text p = None) \<and>
          from m \<le> curFrom \<and> re (take curFrom text) (from m) = Some (match m) \<and>
          (\<forall>p. p < from m \<longrightarrow> re (take curFrom text) p = None))"
proof (cases "scanFrom (regexpAt re text (length text)) (length text) curTo")
  case None
  then have none: "\<forall>p. curTo \<le> p \<and> p \<le> length text \<longrightarrow> re text p = None"
    unfolding scanFrom_None_iff by (simp add: regexpAt_None_iff)
  from None assms obtain p where
    "scanFrom (regexpAt re text curFrom) curFrom 0 = Some (p, m)"
    by (auto simp: RegExpQuery_nextMatch_scan)
  then have "p \<le> curFrom" "regexpAt re text curFrom p = Some m"
      "\<forall>p'. p' < p \<longrightarrow> regexpAt re text curFrom p' = None"
    unfolding scanFrom_Some_iff by auto
  with none show ?thesis
    by (auto simp: regexpAt_Some_iff regexpAt_None_iff)
next
  case (Some pr)
  then obtain p where "scanFrom (regexpAt re text (length text)) (length text) curTo = Some (p, m)"
    using assms by (cases pr) (auto simp: RegExpQuery_nextMatch_scan)
  then have "curTo \<le> p" "p \<le> length text" "regexpAt re text (length text) p = Some m"
      "\<forall>p'. curTo \<le> p' \<and> p' < p \<longrightarrow> regexpAt re text (length text) p' = None"
    unfolding scanFrom_Some_iff by auto
  then show ?thesis
    by (auto simp: regexpAt_Some_iff regexpAt_None_iff)
qed

lemma RegExpQuery_nextMatch_None:
  assumes "RegExpQuery_nextMatch compile q text curFrom curTo = None"
  defines "re \<equiv> compile (search q) (caseInsensitive q)"
  shows "(\<forall>p. curTo \<le> p \<and> p \<le> length text \<longrightarrow> re text p = None) \<and>
         (\<forall>p. p \<le> curFrom \<longrightarrow> re (take curFrom text) p = None)"
proof -
  from assms have
    "scanFrom (regexpAt re text (length text)) (length text) curTo = None"
    "scanFrom (regexpAt re text curFrom) curFrom 0 = None"
    by (auto simp: RegExpQuery_nextMatch_scan split: option.splits)
  then show ?thesis
    unfolding scanFrom_None_iff by (simp add: regexpAt_None_iff)
qed

subsection \<open>All matches\<close>

lemma disjointFrom_sound:
  "r \<in> set (disjointFrom test lim p) \<Longrightarrow> \<exists>p'. p \<le> p' \<and> p' \<le> lim \<and> test p' = Some r"
proof (induction test lim p rule: disjointFrom.induct)
  case (1 test lim p)
  show ?case
  proof (cases "lim < p")
    case True
    with 1 show ?thesis by (subst (asm) (3) disjointFrom.simps) simp
  next
    case False
    show ?thesis
    proof (cases "test p")
      case None
      with False "1.prems" have "r \<in> set (disjointFrom test lim (p + 1))"
        by (subst (asm) disjointFrom.simps) simp
      with "1.IH"(1) False None show ?thesis by (meson add_leD1)
    next
      case (Some x)
      with False "1.prems" have "r = x \<or> r \<in> set (disjointFrom test lim (max (p + 1) (to x)))"
        by (subst (asm) disjointFrom.simps) auto
      then show ?thesis
      proof
        assume "r = x"
        with Some False show ?thesis by (auto simp: not_less)
      next
        assume "r \<in> set (disjointFrom test lim (max (p + 1) (to x)))"
        with "1.IH"(2) False Some obtain p' where
          "max (p + 1) (to x) \<le> p'" "p' \<le> lim" "test p' = Some r" by blast
        then show ?thesis by (intro exI [of _ p']) simp
      qed
    qed
  qed
qed

lemma disjointFrom_lower:
  assumes wf: "\<And>p r. test p = Some r \<Longrightarrow> from r = p"
  shows "r \<in> set (disjointFrom test lim p) \<Longrightarrow> p \<le> from r"
  using disjointFrom_sound [of r test lim p] wf by auto

lemma disjointFrom_disjoint:
  "(\<And>p r. test p = Some r \<Longrightarrow> from r = p) \<Longrightarrow>
     sorted_wrt (\<lambda>x y. to x \<le> from y) (disjointFrom test lim p)"
proof (induction test lim p rule: disjointFrom.induct)
  case (1 test lim p)
  show ?case
  proof (cases "lim < p")
    case True
    then show ?thesis by (subst disjointFrom.simps) simp
  next
    case False
    show ?thesis
    proof (cases "test p")
      case None
      with False 1 show ?thesis by (subst disjointFrom.simps) simp
    next
      case (Some x)
      have "\<forall>y \<in> set (disjointFrom test lim (max (p + 1) (to x))). to x \<le> from y"
        using disjointFrom_lower [of test _ lim "max (p + 1) (to x)"] "1.prems" by fastforce
      with False Some 1 show ?thesis by (subst disjointFrom.simps) simp
    qed
  qed
qed

lemma disjointFrom_complete:
  "(\<And>p r. test p = Some r \<Longrightarrow> from r = p \<and> p < to r) \<Longrightarrow>
     p \<le> p' \<Longrightarrow> p' \<le> lim \<Longrightarrow> test p' = Some r \<Longrightarrow>
       \<exists>m \<in> set (disjointFrom test lim p). from m \<le> p' \<and> p' < to m"
proof (induction test lim p rule: disjointFrom.induct)
  case (1 test lim p)
  note wf = "1.prems"(1)
  from "1.prems" have inside: "\<not> lim < p" by simp
  show ?case
  proof (cases "test p")
    case None
    with "1.prems" have "p + 1 \<le> p'" by (cases "p = p'") auto
    with "1.IH"(1) [OF inside None wf] "1.prems" obtain m where
      "m \<in> set (disjointFrom test lim (p + 1))" "from m \<le> p'" "p' < to m" by blast
    with inside None show ?thesis by (subst disjointFrom.simps) auto
  next
    case (Some x)
    have x: "from x = p" "p < to x" using wf [OF Some] by simp_all
    show ?thesis
    proof (cases "p' < to x")
      case True
      with x "1.prems" inside Some show ?thesis by (subst disjointFrom.simps) auto
    next
      case False
      with "1.prems" x have "max (p + 1) (to x) \<le> p'" by simp
      with "1.IH"(2) [OF inside Some wf] "1.prems" obtain m where
        "m \<in> set (disjointFrom test lim (max (p + 1) (to x)))" "from m \<le> p'" "p' < to m"
        by blast
      with inside Some show ?thesis by (subst disjointFrom.simps) auto
    qed
  qed
qed

lemma nonOverlappingIn_sound:
  assumes "m \<in> set (nonOverlappingIn q text a b)"
  shows "occursAt q text (from m) \<and> m = occurrence q (from m) \<and> a \<le> from m \<and> to m \<le> b"
proof -
  from assms obtain p where "a \<le> p"
    "(if occursAt q text p \<and> p + length (search q) \<le> b then Some (occurrence q p) else None) = Some m"
    unfolding nonOverlappingIn_def by (blast dest: disjointFrom_sound)
  then show ?thesis by (auto simp: occurrence_def split: if_splits)
qed

lemma nonOverlappingIn_disjoint:
  "sorted_wrt (\<lambda>x y. to x \<le> from y) (nonOverlappingIn q text a b)"
  unfolding nonOverlappingIn_def
  by (rule disjointFrom_disjoint) (auto simp: occurrence_def split: if_splits)

lemma nonOverlappingIn_complete:
  assumes "occursAt q text p" "a \<le> p" "p + length (search q) \<le> b"
  shows "\<exists>m \<in> set (nonOverlappingIn q text a b). from m \<le> p \<and> p < to m"
  unfolding nonOverlappingIn_def
proof (rule disjointFrom_complete [where p' = p and r = "occurrence q p"])
  show "a \<le> p" "p \<le> b" using assms by simp_all
  show "(if occursAt q text p \<and> p + length (search q) \<le> b then Some (occurrence q p) else None) =
      Some (occurrence q p)"
    using assms by simp
next
  fix p' r
  assume "(if occursAt q text p' \<and> p' + length (search q) \<le> b then Some (occurrence q p') else None) = Some r"
  then show "from r = p' \<and> p' < to r"
    by (auto simp: occurrence_def occursAt_def split: if_splits)
qed

lemma nextMatches_StringQuery_cursor:
  "nextMatches (StringQuery_cursor q text a b) = nonOverlappingIn q text a b"
  by (simp add: nextMatches_eq nonOverlappingIn_def)

lemma StringQuery_matchAll_eq:
  "StringQuery_matchAll q text lim =
     (if lim < length (nonOverlappingIn q text 0 (length text)) then None
      else Some (nonOverlappingIn q text 0 (length text)))"
  by (simp add: StringQuery_matchAll_def StringQuery_matchAll_loop_eq
      nextMatches_StringQuery_cursor)

lemma RegExpQuery_matchAll_eq:
  "RegExpQuery_matchAll compile q text lim =
     (if lim < length (overlappingMatches (RegExpQuery_cursor compile q text 0 (length text)))
      then None
      else Some (overlappingMatches (RegExpQuery_cursor compile q text 0 (length text))))"
  by (simp add: RegExpQuery_matchAll_def RegExpQuery_matchAll_loop_eq)

text \<open>The literal half of the contract of \<open>matchAll\<close>.\<close>

lemma StringQuery_matchAll_contract:
  "(StringQuery_matchAll q text lim = None \<longleftrightarrow>
      lim < length (nonOverlappingIn q text 0 (length text))) \<and>
   (\<forall>ms. StringQuery_matchAll q text lim = Some ms \<longrightarrow>
      ms = nonOverlappingIn q text 0 (length text) \<and>
      sorted_wrt (\<lambda>x y. to x \<le> from y) ms \<and>
      (\<forall>m \<in> set ms. occursAt q text (from m) \<and> m = occurrence q (from m)) \<and>
      (\<forall>p. occursAt q text p \<longrightarrow> (\<exists>m \<in> set ms. from m \<le> p \<and> p < to m)))"
  using nonOverlappingIn_disjoint [of q "text" 0 "length text"]
        nonOverlappingIn_sound [of _ q "text" 0 "length text"]
        nonOverlappingIn_complete [of q "text" _ 0 "length text"]
  by (auto simp: StringQuery_matchAll_eq dest: occursAt_inside)

subsection \<open>Engines\<close>

lemma matchesInside_bound:
  "matchesInside re \<Longrightarrow> re t p = Some m \<Longrightarrow> p + matchLength m \<le> length t"
  by (auto simp: matchesInside_def)

lemma matchesInside_beyond:
  "matchesInside re \<Longrightarrow> length t < p \<Longrightarrow> re t p = None"
  by (cases "re t p") (auto dest: matchesInside_bound)

lemma literalEngine_inside: "matchesInside (literalEngine source ignoreCase)"
proof -
  have "p + length source \<le> length t"
    if "source \<noteq> []" "take (length source) (drop p t) = source" for p t
  proof -
    from that have "length (take (length source) (drop p t)) = length source" by simp
    with that(1) show ?thesis by (cases source) auto
  qed
  then show ?thesis
    by (auto simp: matchesInside_def literalEngine_def matchLength_def split: if_splits)
qed


subsection \<open>Replacing all matches\<close>

text \<open>What \<open>replaceAll\<close> does on the values that the query's cursor yields, advanced as
  \<open>matchAll\<close> advances it: with at most \<open>10\<^sup>9\<close> of them it does not throw, and it makes
  one change for each.\<close>

lemma replaceAll_cursor_values:
  "(length (nextMatches (StringQuery_cursor q d 0 (length d))) \<le> 1000000000 \<longrightarrow>
      replaceAll compile (StringQuery q) d =
        (let changes = map (\<lambda>m. \<lparr>from = from m, to = to m,
                                   insert = StringQuery_getReplacement q m\<rparr>)
                         (nextMatches (StringQuery_cursor q d 0 (length d)))
         in if changes = [] then Inr (False, None) else Inr (True, Some changes))) \<and>
   (length (overlappingMatches (RegExpQuery_cursor compile q d 0 (length d))) \<le> 1000000000 \<longrightarrow>
      replaceAll compile (RegExpQuery q) d =
        (let changes = map (\<lambda>m. \<lparr>from = from m, to = to m,
                                   insert = RegExpQuery_getReplacement q m\<rparr>)
                         (overlappingMatches (RegExpQuery_cursor compile q d 0 (length d)))
         in if changes = [] then Inr (False, None) else Inr (True, Some changes)))"
  by (simp add: replaceAll_def StringQuery_matchAll_def StringQuery_matchAll_loop_eq
      RegExpQuery_matchAll_eq dispatchChanges_def Let_def)


text \<open>For a literal query these values are the non-overlapping matches.\<close>

lemma replaceAll_StringQuery:
  "length (nonOverlappingIn q d 0 (length d)) \<le> 1000000000 \<Longrightarrow>
     replaceAll compile (StringQuery q) d =
       (let changes = map (\<lambda>m. \<lparr>from = from m, to = to m, insert = replace q\<rparr>)
                        (nonOverlappingIn q d 0 (length d))
        in if changes = [] then Inr (False, None) else Inr (True, Some changes))"
  using replaceAll_cursor_values [of q d compile]
  by (simp add: nextMatches_StringQuery_cursor StringQuery_getReplacement_def)

subsection \<open>The selection-match highlighter\<close>

lemma nextOverlapping_keeps [simp]:
  "matchAt (nextOverlapping c) = matchAt c" "limit (nextOverlapping c) = limit c"
  by (auto simp: nextOverlapping_def split: option.splits)

lemma next_keeps [simp]:
  "matchAt (next c) = matchAt c" "limit (next c) = limit c"
  by (auto simp: next_def split: option.splits)

lemma nextOverlapping_value:
  "\<not> done (nextOverlapping c) \<Longrightarrow> \<exists>p. matchAt c p = Some (value (nextOverlapping c))"
  by (cases "done c") (auto simp: nextOverlapping_def scanFrom_Some_iff split: option.splits)

lemma getDeco_cursor_unfold:
  "getDeco_cursor conf state rng check cursor deco = Some out \<Longrightarrow>
     \<not> done (nextOverlapping cursor) \<Longrightarrow>
     getDeco_cursor conf state rng check (nextOverlapping cursor) deco = Some out \<or>
     (\<exists>d. pushed check state rng (value (nextOverlapping cursor)) = Some d \<and>
          getDeco_cursor conf state rng check (nextOverlapping cursor) (deco @ [d]) = Some out)"
proof -
  let ?c = "nextOverlapping cursor"
  let ?r = "value ?c"
  assume run: "getDeco_cursor conf state rng check cursor deco = Some out"
    and more: "\<not> done ?c"
  define passes where "passes =
    (case check of
       None \<Rightarrow> True
     | Some chk \<Rightarrow>
         (from ?r = 0 \<or> chk (sliceDoc state (from ?r - 1) (from ?r)) \<noteq> Word) \<and>
         (to ?r = length (doc state) \<or> chk (sliceDoc state (to ?r) (to ?r + 1)) \<noteq> Word))"
  define main where "main \<longleftrightarrow> check \<noteq> None \<and> from ?r \<le> from rng \<and> to ?r \<ge> to rng"
  define other where "other \<longleftrightarrow> from ?r \<ge> to rng \<or> to ?r \<le> from rng"
  define deco' where "deco' =
    (if main then deco @ [\<lparr>from = from ?r, to = to ?r, mark = mainMatchDeco\<rparr>]
     else if other then deco @ [\<lparr>from = from ?r, to = to ?r, mark = matchDeco\<rparr>]
     else deco)"
  have step: "getDeco_cursor conf state rng check cursor deco =
      (if passes then (if length deco' > maxMatches conf then None
                     else getDeco_cursor conf state rng check ?c deco')
       else getDeco_cursor conf state rng check ?c deco)"
    using more
    by (subst getDeco_cursor.simps)
       (simp only: Let_def passes_def main_def other_def deco'_def if_False)
  have p: "pushed check state rng ?r =
      (if passes then (if main then Some \<lparr>from = from ?r, to = to ?r, mark = mainMatchDeco\<rparr>
                     else if other then Some \<lparr>from = from ?r, to = to ?r, mark = matchDeco\<rparr>
                     else None)
       else None)"
    unfolding pushed_def passes_def main_def other_def insideWordBoundaries_def
    by (cases check) simp_all
  show ?thesis
  proof (cases passes)
    case False
    with run step show ?thesis by simp
  next
    case True
    with run step have rec: "getDeco_cursor conf state rng check ?c deco' = Some out"
      by (simp split: if_splits)
    consider main | "\<not> main" other | "\<not> main" "\<not> other" by blast
    then show ?thesis
    proof cases
      case 1
      with rec True p show ?thesis by (simp add: deco'_def)
    next
      case 2
      with rec True p show ?thesis by (simp add: deco'_def)
    next
      case 3
      with rec show ?thesis by (simp add: deco'_def)
    qed
  qed
qed

lemma getDeco_cursor_finished:
  "done (nextOverlapping cursor) \<Longrightarrow>
     getDeco_cursor conf state rng check cursor deco = Some deco"
  by (subst getDeco_cursor.simps) (simp only: Let_def if_True)

lemma getDeco_cursor_set:
  "getDeco_cursor conf state rng check c deco = Some out \<Longrightarrow>
     set out \<subseteq> set deco \<union> {d. \<exists>p r. matchAt c p = Some r \<and> pushed check state rng r = Some d}"
proof (induction "limit c + 1 - pos c" arbitrary: c deco rule: less_induct)
  case less
  let ?c = "nextOverlapping c"
  let ?new = "{d. \<exists>p r. matchAt c p = Some r \<and> pushed check state rng r = Some d}"
  show ?case
  proof (cases "done ?c")
    case True
    with less.prems getDeco_cursor_finished [OF True, of conf state rng check deco]
    show ?thesis by simp
  next
    case False
    then obtain p where p: "matchAt c p = Some (value ?c)"
      using nextOverlapping_value by blast
    from False have smaller: "limit ?c + 1 - pos ?c < limit c + 1 - pos c"
      by (rule nextOverlapping_measure)
    have same: "{d. \<exists>p r. matchAt ?c p = Some r \<and> pushed check state rng r = Some d} = ?new"
      by simp
    from getDeco_cursor_unfold [OF less.prems False] show ?thesis
    proof
      assume "getDeco_cursor conf state rng check ?c deco = Some out"
      from less.hyps [OF smaller this] same show ?thesis by simp
    next
      assume "\<exists>d. pushed check state rng (value ?c) = Some d \<and>
          getDeco_cursor conf state rng check ?c (deco @ [d]) = Some out"
      then obtain d where d: "pushed check state rng (value ?c) = Some d"
        and rec: "getDeco_cursor conf state rng check ?c (deco @ [d]) = Some out" by blast
      from d p have "d \<in> ?new" by blast
      moreover from less.hyps [OF smaller rec] same
      have "set out \<subseteq> set (deco @ [d]) \<union> ?new" by simp
      ultimately show ?thesis by auto
    qed
  qed
qed

lemma getDeco_parts_set:
  "getDeco_parts conf state rng check query parts deco = Some out \<Longrightarrow>
     set out \<subseteq> set deco \<union>
       {d. \<exists>b p r. literalAt (doc state) query None b p = Some r \<and>
                   pushed check state rng r = Some d}"
proof (induction parts arbitrary: deco)
  case Nil
  then show ?case by simp
next
  case (Cons part parts)
  let ?new = "{d. \<exists>b p r. literalAt (doc state) query None b p = Some r \<and>
                   pushed check state rng r = Some d}"
  let ?c = "SearchCursor (doc state) query (from part) (to part) None"
  from Cons.prems obtain deco' where
    first: "getDeco_cursor conf state rng check ?c deco = Some deco'"
    and rest: "getDeco_parts conf state rng check query parts deco' = Some out"
    by (cases "getDeco_cursor conf state rng check ?c deco") simp_all
  have m: "matchAt ?c = literalAt (doc state) query None (to part)"
    by (simp add: SearchCursor_def)
  have "{d. \<exists>p r. matchAt ?c p = Some r \<and> pushed check state rng r = Some d} \<subseteq> ?new"
    unfolding m by blast
  with getDeco_cursor_set [OF first] have "set deco' \<subseteq> set deco \<union> ?new" by blast
  moreover from Cons.IH [OF rest] have "set out \<subseteq> set deco' \<union> ?new" .
  ultimately show ?case by blast
qed

lemma getDeco_single:
  assumes "ranges (selection state) = [rng]" "mainIndex (selection state) = 0"
  shows "getDeco host conf state visibleRanges =
    (if from rng = to rng then
       (if \<not> highlightWordAroundCursor conf then Inr []
        else case wordAt host state (head rng) of
               None \<Rightarrow> Inr []
             | Some word \<Rightarrow>
                 decorationSet
                   (getDeco_parts conf state rng (Some (charCategorizer host state (head rng)))
                      (sliceDoc state (from word) (to word)) visibleRanges []))
     else if to rng - from rng < minSelectionLength conf \<or> to rng - from rng > 200 then Inr []
     else if trim (sliceDoc state (from rng) (to rng)) = [] then Inr []
     else decorationSet
            (getDeco_parts conf state rng None (trim (sliceDoc state (from rng) (to rng)))
               visibleRanges []))"
  unfolding getDeco_def Let_def assms by (simp split: option.splits)

lemma getDeco_single_main:
  "ranges (selection state) = [rng] \<Longrightarrow> getDeco host conf state visibleRanges = Inr decos \<Longrightarrow>
     mainIndex (selection state) = 0"
  unfolding getDeco_def Let_def by (cases "mainIndex (selection state)") simp_all

lemma decorationSet_member:
  "decorationSet r = Inr decos \<Longrightarrow> d \<in> set decos \<Longrightarrow> \<exists>out. r = Some out \<and> d \<in> set out"
  by (cases r) (auto simp: decorationSet_def)

text \<open>The decorations of \<open>getDeco\<close> for a selection of one range: each is pushed for an
  occurrence of the query, which is the word at an empty cursor and the trimmed selection
  otherwise.\<close>

lemma getDeco_decorations:
  assumes sel: "ranges (selection state) = [rng]"
    and run: "getDeco host conf state visibleRanges = Inr decos"
    and d: "d \<in> set decos"
  shows "\<exists>query check b p r.
           literalAt (doc state) query None b p = Some r \<and>
           pushed check state rng r = Some d \<and>
           (if from rng = to rng
            then highlightWordAroundCursor conf \<and>
                 check = Some (charCategorizer host state (head rng)) \<and>
                 (\<exists>word. wordAt host state (head rng) = Some word \<and>
                         query = sliceDoc state (from word) (to word))
            else check = None \<and> query = trim (sliceDoc state (from rng) (to rng)))"
proof -
  note main = getDeco_single_main [OF sel run]
  note eq = getDeco_single [OF sel main, of host conf visibleRanges]
  show ?thesis
  proof (cases "from rng = to rng")
    case True
    from d have ne: "decos \<noteq> []" by auto
    from run eq True ne have on: "highlightWordAroundCursor conf"
      by (cases "highlightWordAroundCursor conf") simp_all
    from run eq True ne on obtain word where word: "wordAt host state (head rng) = Some word"
      by (cases "wordAt host state (head rng)") simp_all
    let ?check = "Some (charCategorizer host state (head rng))"
    let ?query = "sliceDoc state (from word) (to word)"
    from run eq True on word have
      "decorationSet (getDeco_parts conf state rng ?check ?query visibleRanges []) = Inr decos"
      by simp
    from decorationSet_member [OF this d] obtain out where
      out: "getDeco_parts conf state rng ?check ?query visibleRanges [] = Some out" "d \<in> set out"
      by blast
    from getDeco_parts_set [OF out(1)] out(2) obtain b p r where
      "literalAt (doc state) ?query None b p = Some r" "pushed ?check state rng r = Some d"
      by auto
    with True on word show ?thesis by (intro exI [of _ ?query] exI [of _ ?check]) auto
  next
    case False
    from d have ne: "decos \<noteq> []" by auto
    let ?query = "trim (sliceDoc state (from rng) (to rng))"
    from run eq False ne have
      "decorationSet (getDeco_parts conf state rng None ?query visibleRanges []) = Inr decos"
      by (simp split: if_splits)
    from decorationSet_member [OF this d] obtain out where
      out: "getDeco_parts conf state rng None ?query visibleRanges [] = Some out" "d \<in> set out"
      by blast
    from getDeco_parts_set [OF out(1)] out(2) obtain b p r where
      "literalAt (doc state) ?query None b p = Some r" "pushed None state rng r = Some d"
      by auto
    with False show ?thesis by (intro exI [of _ ?query] exI [of _ None]) auto
  qed
qed

lemma pushed_Some:
  assumes "pushed check state rng r = Some d"
  shows "from d = from r \<and> to d = to r \<and>
         (\<forall>chk. check = Some chk \<longrightarrow> insideWordBoundaries chk state (from r) (to r)) \<and>
         (mark d = mainMatchDeco \<longleftrightarrow> check \<noteq> None \<and> from r \<le> from rng \<and> to rng \<le> to r) \<and>
         (mark d = matchDeco \<longrightarrow> to rng \<le> from r \<or> to r \<le> from rng)"
proof (cases check)
  case None
  with assms show ?thesis by (auto simp: pushed_def split: if_splits)
next
  case (Some chk)
  with assms show ?thesis by (auto simp: pushed_def split: if_splits)
qed

lemma literalAt_None_Some:
  assumes "literalAt text query None b p = Some r"
  shows "query \<noteq> [] \<and> from r = p \<and> to r = p + length query \<and> to r \<le> b \<and>
         take (length query) (drop p text) = query"
  using assms by (auto simp: literalAt_def Let_def split: if_splits)

lemma occurrence_edges:
  assumes "query \<noteq> []" "take (length query) (drop a (doc state)) = query"
  shows "sliceDoc state a (a + 1) = [hd query]"
    and "sliceDoc state (a + length query - 1) (a + length query) = [last query]"
proof -
  let ?n = "length query"
  from assms(1) have n: "0 < ?n" by simp
  have "take 1 (take ?n (drop a (doc state))) = take 1 (drop a (doc state))"
    using n by (cases query) (simp_all add: min_def)
  with assms have "take 1 (drop a (doc state)) = take 1 query" by simp
  also from assms(1) have "take 1 query = [hd query]" by (cases query) simp_all
  finally show "sliceDoc state a (a + 1) = [hd query]" by (simp add: sliceDoc_def)
  have one: "?n - (?n - 1) = 1" using assms(1) by (cases query) simp_all
  have "drop (?n - 1) (take ?n (drop a (doc state))) =
        take 1 (drop (?n - 1) (drop a (doc state)))"
    unfolding drop_take one ..
  moreover have "a + ?n - 1 = ?n - 1 + a" using assms(1) by (cases query) simp_all
  ultimately have "take 1 (drop (a + ?n - 1) (doc state)) = drop (?n - 1) query"
    using assms(2) by simp
  also have "drop (?n - 1) query = [last query]"
  proof -
    have "drop (length (butlast query)) (butlast query @ [last query]) = [last query]"
      by simp
    with assms(1) show ?thesis by (simp add: append_butlast_last_id)
  qed
  finally have "take 1 (drop (a + ?n - 1) (doc state)) = [last query]" .
  moreover have "a + ?n - (a + ?n - 1) = 1" using assms(1) by (cases query) simp_all
  ultimately show "sliceDoc state (a + ?n - 1) (a + ?n) = [last query]"
    by (simp add: sliceDoc_def)
qed

lemma insideWord_occurrence:
  assumes "query \<noteq> []" "take (length query) (drop a (doc state)) = query"
  shows "insideWord check state a (a + length query) \<longleftrightarrow>
           check [hd query] = Word \<and> check [last query] = Word"
  using occurrence_edges [OF assms] by (simp add: insideWord_def)

subsection \<open>The next occurrence\<close>













section \<open>The claims\<close>

text \<open>
  Claim C5. For every state, classifier and range \<open>[a, b)\<close>, \<open>isWholeWord\<close> accepts the
  range if and only if (a) the character before \<open>a\<close> is not a word character or \<open>a\<close> is the
  start of the document, and the character after \<open>b\<close> is not a word character or \<open>b\<close> is
  the end of the document, and (b) the character at \<open>a\<close> and the character at \<open>b - 1\<close> are
  word characters.
\<close>

theorem isWholeWord_iff:
  "isWholeWord check state a b \<longleftrightarrow>
     ((a = 0 \<or> check (charBefore (doc state) a) \<noteq> Word) \<and>
      (b = length (doc state) \<or> check (charAt (doc state) b) \<noteq> Word)) \<and>
     (check (charAt (doc state) a) = Word \<and> check (charBefore (doc state) b) = Word)"
  unfolding isWholeWord_def insideWordBoundaries_def insideWord_def
  by (simp only: sliceDoc_charAt sliceDoc_charBefore)


theorem isWholeWord_iff_witness:
  "isWholeWord asciiCategorizer (stateOf ''a cat, category'') 2 5 \<and>
   \<not> isWholeWord asciiCategorizer (stateOf ''a cat, category'') 7 10 \<and>
   \<not> isWholeWord asciiCategorizer (stateOf ''a cat, category'') 1 5"
  using isWholeWord_iff [of asciiCategorizer "stateOf ''a cat, category''" 2 5]
        isWholeWord_iff [of asciiCategorizer "stateOf ''a cat, category''" 7 10]
        isWholeWord_iff [of asciiCategorizer "stateOf ''a cat, category''" 1 5]
  by (simp add: stateOf_def asciiCategorizer_def charAt_def charBefore_def)

text \<open>
  Claim C4. A literal query's \<open>getReplacement\<close> returns the replace string verbatim. A
  regular-expression query's \<open>getReplacement\<close> expands \<open>$&\<close> to the whole match, \<open>$n\<close> for
  \<open>n\<close> from 1 to 9 to the \<open>n\<close>-th capture group when the match array has that index, \<open>$$\<close>
  to a dollar sign, and leaves everything else as it is (a match array always holds the
  whole match).
\<close>

theorem getReplacement_expands:
  "StringQuery_getReplacement q r = replace q \<and>
   (match r' \<noteq> [] \<longrightarrow>
      RegExpQuery_getReplacement q r' = expandTemplate (match r') (replace q))"
  by (simp add: StringQuery_getReplacement_def RegExpQuery_getReplacement_def
      replaceGlobal_replacer)

theorem getReplacement_expands_witness:
  "StringQuery_getReplacement (exampleQuery ''a(b)'' ''x$1$$1$&$0$+$5$a$'')
     \<lparr>from = 0, to = 2\<rparr> = ''x$1$$1$&$0$+$5$a$'' \<and>
   RegExpQuery_getReplacement (exampleQuery ''a(b)'' ''x$1$$1$&$0$+$5$a$'')
     \<lparr>from = 0, to = 2, match = [''ab'', ''b'']\<rparr> = ''xb$1ab$0$+$5$a$''"
proof -
  have "expandTemplate [''ab'', ''b''] ''x$1$$1$&$0$+$5$a$'' = ''xb$1ab$0$+$5$a$''"
    by code_simp
  then show ?thesis
    using getReplacement_expands [of "exampleQuery ''a(b)'' ''x$1$$1$&$0$+$5$a$''"
        "\<lparr>from = 0, to = 2\<rparr>" "\<lparr>from = 0, to = 2, match = [''ab'', ''b'']\<rparr>"]
    by (simp add: exampleQuery_def)
qed

text \<open>
  Claim C2. For a literal query, \<open>prevMatch\<close> returns, and its result is that of the
  chunked backward scan: \<open>[0, curFrom)\<close> is scanned in chunks of 10000 characters, each
  extended backward by the needle's length, the last match of the first chunk (nearest
  to \<open>curFrom\<close>) that has a match is the result, and if no chunk has one, \<open>[curTo, length)\<close>
  is scanned once in the same way; the result is none only if that scan finds nothing
  either.
\<close>

theorem prevMatch_chunked:
  "StringQuery_prevMatch q text curFrom curTo = Some (specPrevMatch q text curFrom curTo)"
  by (simp add: StringQuery_prevMatch_def prevMatchInRange_def prevMatchInRange_loop_eq
      specPrevMatch_def chunkedPrevMatch_def split: option.splits)

theorem prevMatch_chunked_witness:
  "StringQuery_prevMatch (exampleQuery ''ab'' []) ''ab ab ab'' 1 3 =
     Some (Some \<lparr>from = 6, to = 8\<rparr>)"
proof -
  have "specPrevMatch (exampleQuery ''ab'' []) ''ab ab ab'' 1 3 = Some \<lparr>from = 6, to = 8\<rparr>"
    by code_simp
  then show ?thesis
    using prevMatch_chunked [of "exampleQuery ''ab'' []" "''ab ab ab''" 1 3] by simp
qed

text \<open>
  Claim C10. \<open>prevMatchInRange\<close> returns for every query, document and bounds. Every
  iteration of its loop at position \<open>p\<close> either returns the range it found, or returns
  \<open>null\<close> when the start of the chunk is clamped to the lower bound, or goes on at
  \<open>p - 10000\<close>, which is smaller than \<open>p\<close> and still above the lower bound.
\<close>

theorem prevMatchInRange_terminates:
  "(\<exists>r. prevMatchInRange q text a b = Some r) \<and>
   (let start = max a (p - ChunkSize - length (search q));
        rng = lastOverlapping (StringQuery_cursor q text start p) None
    in (rng \<noteq> None \<and> prevMatchInRange_loop q text a p = Some rng) \<or>
       (rng = None \<and> start = a \<and> prevMatchInRange_loop q text a p = Some None) \<or>
       (rng = None \<and> a < p - ChunkSize \<and> p - ChunkSize + ChunkSize = p \<and>
        prevMatchInRange_loop q text a p = prevMatchInRange_loop q text a (p - ChunkSize)))"
  using prevMatchInRange_loop_returns [of q "text" a b] prevMatchInRange_loop_step [of a p q "text"]
  by (simp add: prevMatchInRange_def)

theorem prevMatchInRange_terminates_witness:
  "prevMatchInRange (exampleQuery ''ab'' []) ''ab ab ab'' 0 4 = Some (Some \<lparr>from = 0, to = 2\<rparr>)"
proof -
  obtain r where r: "prevMatchInRange (exampleQuery ''ab'' []) ''ab ab ab'' 0 4 = Some r"
    using prevMatchInRange_terminates [of "exampleQuery ''ab'' []" "''ab ab ab''" 0 4 0]
    by blast
  have "prevMatchInRange (exampleQuery ''ab'' []) ''ab ab ab'' 0 4 = Some (Some \<lparr>from = 0, to = 2\<rparr>)"
    by code_simp
  with r show ?thesis by simp
qed

text \<open>
  Claim C1, as stated, fails. With the document \<open>ab\<close>, the needle \<open>ab\<close> and the cursor at
  offset 1, \<open>nextMatch\<close> returns none although the document contains a match. And with
  the document \<open>xab\<close> and \<open>curTo = 1\<close> it returns the match that starts at \<open>curTo\<close> itself,
  which is not strictly after \<open>curTo\<close>.
\<close>

theorem nextMatch_counterexample:
  "StringQuery_nextMatch (exampleQuery ''ab'' []) ''ab'' 1 1 = None \<and>
   occursAt (exampleQuery ''ab'' []) ''ab'' 0 \<and>
   StringQuery_matchAll (exampleQuery ''ab'' []) ''ab'' 1000 = Some [\<lparr>from = 0, to = 2\<rparr>] \<and>
   StringQuery_nextMatch (exampleQuery ''ab'' []) ''xab'' 0 1 = Some \<lparr>from = 1, to = 3\<rparr>"
  by code_simp


text \<open>
  Claim C1, amended. \<open>nextMatch(doc, curFrom, curTo)\<close> returns the first match that starts
  at or after \<open>curTo\<close>; if there is none, the first match that lies inside \<open>[0, curFrom)\<close>;
  and none exactly when no match starts at or after \<open>curTo\<close> and no match lies inside
  \<open>[0, curFrom)\<close>. For a literal query the matches are the occurrences of the needle in
  the document. For a regular-expression query whose engine keeps every match inside the
  string it runs on, the matches that start at or after \<open>curTo\<close> are those of the engine on
  the document, and the matches inside \<open>[0, curFrom)\<close> are those of the engine on the
  document cut at \<open>curFrom\<close>, which is all the wrapped cursor buffers; they end at or
  before \<open>curFrom\<close>.
\<close>

theorem nextMatch_first_or_wrapped:
  "(case StringQuery_nextMatch q d curFrom curTo of
      Some m \<Rightarrow>
        occursAt q d (from m) \<and> m = occurrence q (from m) \<and>
        (curTo \<le> from m \<and> (\<forall>p. curTo \<le> p \<and> p < from m \<longrightarrow> \<not> occursAt q d p) \<or>
         (\<forall>p. curTo \<le> p \<longrightarrow> \<not> occursAt q d p) \<and> to m \<le> curFrom \<and>
         (\<forall>p. p < from m \<longrightarrow> \<not> occursAt q d p))
    | None \<Rightarrow> \<forall>p. occursAt q d p \<longrightarrow> p < curTo \<and> curFrom < p + length (search q)) \<and>
   (matchesInside (compile (search q) (caseInsensitive q)) \<longrightarrow>
    (case RegExpQuery_nextMatch compile q d curFrom curTo of
       Some m \<Rightarrow>
         to m = from m + matchLength (match m) \<and>
         (curTo \<le> from m \<and> to m \<le> length d \<and>
          compile (search q) (caseInsensitive q) d (from m) = Some (match m) \<and>
          (\<forall>p. curTo \<le> p \<and> p < from m \<longrightarrow>
               compile (search q) (caseInsensitive q) d p = None) \<or>
          (\<forall>p. curTo \<le> p \<longrightarrow> compile (search q) (caseInsensitive q) d p = None) \<and>
          to m \<le> curFrom \<and>
          compile (search q) (caseInsensitive q) (take curFrom d) (from m) = Some (match m) \<and>
          (\<forall>p. p < from m \<longrightarrow>
               compile (search q) (caseInsensitive q) (take curFrom d) p = None))
     | None \<Rightarrow>
         (\<forall>p. curTo \<le> p \<longrightarrow> compile (search q) (caseInsensitive q) d p = None) \<and>
         (\<forall>p. compile (search q) (caseInsensitive q) (take curFrom d) p = None)))"
proof (intro conjI impI)
  show "case StringQuery_nextMatch q d curFrom curTo of
      Some m \<Rightarrow>
        occursAt q d (from m) \<and> m = occurrence q (from m) \<and>
        (curTo \<le> from m \<and> (\<forall>p. curTo \<le> p \<and> p < from m \<longrightarrow> \<not> occursAt q d p) \<or>
         (\<forall>p. curTo \<le> p \<longrightarrow> \<not> occursAt q d p) \<and> to m \<le> curFrom \<and>
         (\<forall>p. p < from m \<longrightarrow> \<not> occursAt q d p))
    | None \<Rightarrow> \<forall>p. occursAt q d p \<longrightarrow> p < curTo \<and> curFrom < p + length (search q)"
    using StringQuery_nextMatch_Some [of q d curFrom curTo]
          StringQuery_nextMatch_None [of q d curFrom curTo]
    by (cases "StringQuery_nextMatch q d curFrom curTo") simp_all
next
  let ?re = "compile (search q) (caseInsensitive q)"
  assume inside: "matchesInside ?re"
  have beyond: "?re t p = None" if "length t < p" for t p
    using inside that by (rule matchesInside_beyond)
  have fwd: "(\<forall>p. curTo \<le> p \<and> p \<le> length d \<longrightarrow> ?re d p = None) \<longleftrightarrow>
             (\<forall>p. curTo \<le> p \<longrightarrow> ?re d p = None)"
    using beyond [of d] by (metis not_le_imp_less)
  have cut: "(\<forall>p. p \<le> curFrom \<longrightarrow> ?re (take curFrom d) p = None) \<longleftrightarrow>
             (\<forall>p. ?re (take curFrom d) p = None)"
  proof -
    have "?re (take curFrom d) p = None" if "curFrom < p" for p
      using beyond [of "take curFrom d" p] that by simp
    then show ?thesis by (metis not_le_imp_less)
  qed
  show "case RegExpQuery_nextMatch compile q d curFrom curTo of
       Some m \<Rightarrow>
         to m = from m + matchLength (match m) \<and>
         (curTo \<le> from m \<and> to m \<le> length d \<and>
          ?re d (from m) = Some (match m) \<and>
          (\<forall>p. curTo \<le> p \<and> p < from m \<longrightarrow> ?re d p = None) \<or>
          (\<forall>p. curTo \<le> p \<longrightarrow> ?re d p = None) \<and>
          to m \<le> curFrom \<and>
          ?re (take curFrom d) (from m) = Some (match m) \<and>
          (\<forall>p. p < from m \<longrightarrow> ?re (take curFrom d) p = None))
     | None \<Rightarrow>
         (\<forall>p. curTo \<le> p \<longrightarrow> ?re d p = None) \<and>
         (\<forall>p. ?re (take curFrom d) p = None)"
  proof (cases "RegExpQuery_nextMatch compile q d curFrom curTo")
    case None
    from RegExpQuery_nextMatch_None [OF None] fwd cut show ?thesis
      unfolding None by simp
  next
    case (Some m)
    note char = RegExpQuery_nextMatch_Some [OF Some]
    have len: "to m = from m + matchLength (match m)" using char by simp
    from char consider
      (forward) "curTo \<le> from m" "?re d (from m) = Some (match m)"
        "\<forall>p. curTo \<le> p \<and> p < from m \<longrightarrow> ?re d p = None"
      | (wrapped) "\<forall>p. curTo \<le> p \<and> p \<le> length d \<longrightarrow> ?re d p = None"
        "?re (take curFrom d) (from m) = Some (match m)"
        "\<forall>p. p < from m \<longrightarrow> ?re (take curFrom d) p = None"
      by blast
    then show ?thesis
    proof cases
      case forward
      from matchesInside_bound [OF inside forward(2)] len have "to m \<le> length d" by simp
      with forward len show ?thesis unfolding Some by simp
    next
      case wrapped
      from matchesInside_bound [OF inside wrapped(2)] len have "to m \<le> curFrom" by simp
      with wrapped len fwd show ?thesis unfolding Some by simp
    qed
  qed
qed


theorem nextMatch_first_or_wrapped_witness:
  "matchesInside (literalEngine ''ab'' False) \<and>
   StringQuery_nextMatch (exampleQuery ''ab'' []) ''ab xab'' 0 2 = Some \<lparr>from = 4, to = 6\<rparr> \<and>
   occursAt (exampleQuery ''ab'' []) ''ab xab'' 4 \<and>
   \<not> occursAt (exampleQuery ''ab'' []) ''ab xab'' 3 \<and>
   RegExpQuery_nextMatch literalEngine (exampleQuery ''ab'' []) ''ab xab'' 5 5 =
     Some \<lparr>from = 0, to = 2, match = [''ab'']\<rparr> \<and>
   literalEngine ''ab'' False ''ab xab'' 5 = None \<and>
   literalEngine ''ab'' False (take 5 ''ab xab'') 0 = Some [''ab'']"
proof -
  have l: "StringQuery_nextMatch (exampleQuery ''ab'' []) ''ab xab'' 0 2 = Some \<lparr>from = 4, to = 6\<rparr>"
    by code_simp
  have r: "RegExpQuery_nextMatch literalEngine (exampleQuery ''ab'' []) ''ab xab'' 5 5 =
     Some \<lparr>from = 0, to = 2, match = [''ab'']\<rparr>"
    by code_simp
  have i: "matchesInside (literalEngine ''ab'' False)"
    by (rule literalEngine_inside)
  show ?thesis
    using nextMatch_first_or_wrapped [where q = "exampleQuery ''ab'' []" and d = "''ab xab''"
            and curFrom = 0 and curTo = 2 and compile = literalEngine]
          nextMatch_first_or_wrapped [where q = "exampleQuery ''ab'' []" and d = "''ab xab''"
            and curFrom = 5 and curTo = 5 and compile = literalEngine]
    unfolding l r
    using i by (auto simp: exampleQuery_def)
qed

text \<open>
  Claim C3 at a regular-expression query. \<open>RegExpQuery.matchAll\<close> advances with
  \<open>nextOverlapping\<close>, where \<open>StringQuery.matchAll\<close> uses \<open>next\<close>: for the pattern \<open>aa\<close> and
  the document \<open>aaa\<close> it returns the two overlapping matches at offsets 0 and 1, and the
  literal query returns the match at offset 0 only.
\<close>

theorem RegExpQuery_matchAll_overlapping:
  "RegExpQuery_matchAll literalEngine (exampleQuery ''aa'' []) ''aaa'' 1000 =
     Some [\<lparr>from = 0, to = 2, match = [''aa'']\<rparr>, \<lparr>from = 1, to = 3, match = [''aa'']\<rparr>] \<and>
   StringQuery_matchAll (exampleQuery ''aa'' []) ''aaa'' 1000 = Some [\<lparr>from = 0, to = 2\<rparr>]"
  by code_simp

text \<open>
  Claim C9 at a regular-expression query. \<open>replaceAll\<close> makes one change for every value
  of \<open>RegExpQuery.matchAll\<close>, which advances with \<open>nextOverlapping\<close>: for the pattern \<open>aa\<close>
  and the document \<open>aaa\<close>, which has one non-overlapping match, it dispatches the two
  overlapping changes at offsets 0 and 1, where the literal query dispatches one. In the
  same way \<open>matchAll\<close> returns \<open>null\<close> for \<open>aaaa\<close> and the limit 2, the number of
  non-overlapping matches.
\<close>

theorem replaceAll_regexp_overlapping:
  "replaceAll literalEngine (RegExpQuery (exampleQuery ''aa'' ''x'')) ''aaa'' =
     Inr (True, Some [\<lparr>from = 0, to = 2, insert = ''x''\<rparr>,
                      \<lparr>from = 1, to = 3, insert = ''x''\<rparr>]) \<and>
   replaceAll literalEngine (StringQuery (exampleQuery ''aa'' ''x'')) ''aaa'' =
     Inr (True, Some [\<lparr>from = 0, to = 2, insert = ''x''\<rparr>]) \<and>
   nonOverlappingIn (exampleQuery ''aa'' ''x'') ''aaa'' 0 3 = [\<lparr>from = 0, to = 2\<rparr>] \<and>
   RegExpQuery_matchAll literalEngine (exampleQuery ''aa'' ''x'') ''aaaa'' 2 = None \<and>
   StringQuery_matchAll (exampleQuery ''aa'' ''x'') ''aaaa'' 2 =
     Some [\<lparr>from = 0, to = 2\<rparr>, \<lparr>from = 2, to = 4\<rparr>]"
proof -
  have lim: "RegExpQuery_matchAll literalEngine (exampleQuery ''aa'' ''x'') ''aaaa'' 2 = None \<and>
      StringQuery_matchAll (exampleQuery ''aa'' ''x'') ''aaaa'' 2 =
        Some [\<lparr>from = 0, to = 2\<rparr>, \<lparr>from = 2, to = 4\<rparr>]"
    by code_simp
  have s: "nextMatches (StringQuery_cursor (exampleQuery ''aa'' ''x'') ''aaa'' 0 (length ''aaa''))
      = [\<lparr>from = 0, to = 2\<rparr>]"
    by code_simp
  have r: "overlappingMatches
        (RegExpQuery_cursor literalEngine (exampleQuery ''aa'' ''x'') ''aaa'' 0 (length ''aaa''))
      = [\<lparr>from = 0, to = 2, match = [''aa'']\<rparr>, \<lparr>from = 1, to = 3, match = [''aa'']\<rparr>]"
    by code_simp
  have n: "nonOverlappingIn (exampleQuery ''aa'' ''x'') ''aaa'' 0 3 = [\<lparr>from = 0, to = 2\<rparr>]"
    by code_simp
  have g: "RegExpQuery_getReplacement (exampleQuery ''aa'' ''x'') m = ''x''" for m
    by (simp add: RegExpQuery_getReplacement_def exampleQuery_def)
  show ?thesis
    using replaceAll_cursor_values [where q = "exampleQuery ''aa'' ''x''" and d = "''aaa''"
            and compile = literalEngine]
    unfolding s r n
    using lim
    by (simp add: g StringQuery_getReplacement_def) (simp add: exampleQuery_def)
qed

text \<open>
  Claim C7. When the selection is one empty cursor and \<open>getDeco\<close> decorates an occurrence,
  word highlighting is enabled, there is a word at the cursor, the occurrence has the
  text of that word, and the characters directly outside the occurrence are not word
  characters (or the occurrence touches an end of the document): it does not lie inside
  a longer word. Where the word that the host returns starts and ends with word
  characters, the occurrence passes the whole-word test \<open>isWholeWord\<close>.
\<close>

theorem wordHighlight_wholeWord:
  assumes "ranges (selection state) = [rng]" and "from rng = to rng"
    and "getDeco host conf state visibleRanges = Inr decos" and "d \<in> set decos"
  shows "highlightWordAroundCursor conf \<and>
         (\<exists>word. wordAt host state (head rng) = Some word \<and>
            sliceDoc state (from d) (to d) = sliceDoc state (from word) (to word) \<and>
            insideWordBoundaries (charCategorizer host state (head rng)) state (from d) (to d) \<and>
            (from word < to word \<and> to word \<le> length (doc state) \<and>
             insideWord (charCategorizer host state (head rng)) state (from word) (to word) \<longrightarrow>
             isWholeWord (charCategorizer host state (head rng)) state (from d) (to d)))"
proof -
  let ?check = "charCategorizer host state (head rng)"
  from getDeco_decorations [OF assms(1,3,4)] assms(2) obtain b p r word where
    lit: "literalAt (doc state) (sliceDoc state (from word) (to word)) None b p = Some r"
    and pushed: "pushed (Some ?check) state rng r = Some d"
    and on: "highlightWordAroundCursor conf"
    and word: "wordAt host state (head rng) = Some word"
    by auto
  let ?query = "sliceDoc state (from word) (to word)"
  note occ = literalAt_None_Some [OF lit]
  note dec = pushed_Some [OF pushed]
  from occ dec have d: "from d = p" "to d = p + length ?query" by simp_all
  from occ have same: "sliceDoc state (from d) (to d) = ?query"
    unfolding d by (simp add: sliceDoc_def)
  from dec have bounds: "insideWordBoundaries ?check state (from d) (to d)" by simp
  have whole: "isWholeWord ?check state (from d) (to d)"
    if w: "from word < to word" "to word \<le> length (doc state)"
      and inside: "insideWord ?check state (from word) (to word)"
  proof -
    from w have len: "length ?query = to word - from word"
      by (simp add: sliceDoc_def)
    then have at_word: "take (length ?query) (drop (from word) (doc state)) = ?query"
      by (simp add: sliceDoc_def)
    from w len have "from word + length ?query = to word" by simp
    with insideWord_occurrence [OF _ at_word, of ?check] occ inside
    have "?check [hd ?query] = Word \<and> ?check [last ?query] = Word" by simp
    with insideWord_occurrence [of ?query p state ?check] occ
    have "insideWord ?check state (from d) (to d)" unfolding d by simp
    with bounds show ?thesis by (simp add: isWholeWord_def)
  qed
  from on word same bounds whole show ?thesis by blast
qed

theorem wordHighlight_wholeWord_witness:
  "getDeco exampleHost (defaultHighlightOptions\<lparr>highlightWordAroundCursor := True\<rparr>)
     (exampleState ''cat category cat'' [(1, 1)]) [\<lparr>from = 0, to = 16\<rparr>] =
     Inr [\<lparr>from = 0, to = 3, mark = mainMatchDeco\<rparr>, \<lparr>from = 13, to = 16, mark = matchDeco\<rparr>] \<and>
   isWholeWord asciiCategorizer (exampleState ''cat category cat'' [(1, 1)]) 13 16 \<and>
   \<not> isWholeWord asciiCategorizer (exampleState ''cat category cat'' [(1, 1)]) 4 7"
proof -
  let ?state = "exampleState ''cat category cat'' [(1, 1)]"
  let ?conf = "defaultHighlightOptions\<lparr>highlightWordAroundCursor := True\<rparr>"
  have run: "getDeco exampleHost ?conf ?state [\<lparr>from = 0, to = 16\<rparr>] =
     Inr [\<lparr>from = 0, to = 3, mark = mainMatchDeco\<rparr>, \<lparr>from = 13, to = 16, mark = matchDeco\<rparr>]"
    by code_simp
  have sel: "ranges (selection ?state) = [selectionRange 1 1]"
    by (simp add: exampleState_def)
  have empty: "from (selectionRange 1 1) = to (selectionRange 1 1)"
    by (simp add: selectionRange_def)
  have word: "wordAt exampleHost ?state (head (selectionRange 1 1)) = Some (selectionRange 0 3)"
    by code_simp
  have inside: "insideWord asciiCategorizer ?state 0 3"
    by code_simp
  have no: "\<not> isWholeWord asciiCategorizer ?state 4 7"
    by code_simp
  have cat: "charCategorizer exampleHost ?state (head (selectionRange 1 1)) = asciiCategorizer"
    by (simp add: exampleHost_def)
  have len: "length (doc ?state) = 16"
    by (simp add: exampleState_def)
  from wordHighlight_wholeWord [OF sel empty run, of "\<lparr>from = 13, to = 16, mark = matchDeco\<rparr>"]
    word inside len
  have "isWholeWord asciiCategorizer ?state 13 16"
    unfolding cat by (simp add: selectionRange_def)
  with run no show ?thesis by simp
qed










end
